theory Spec2Isabelle
  imports Main
begin

section \<open>Channel topology (class AnodesChannelGrouping, determine_anode_plane)\<close>

text \<open>
  \<^verbatim>\<open>np.arange(a, b)\<close> on Python integers: the ascending sequence \<open>a, a+1, ..., b-1\<close>
  (empty when \<open>b \<le> a\<close>).
\<close>

definition arange :: "int \<Rightarrow> int \<Rightarrow> int list" where
  "arange a b = [a..b - 1]"

text \<open>Adding a scalar to an integer array (\<^verbatim>\<open>channels + 3072 * crp\<close>).\<close>

definition add_scalar :: "int list \<Rightarrow> int \<Rightarrow> int list" where
  "add_scalar xs k = map (\<lambda>x. x + k) xs"

text \<open>
  \<^verbatim>\<open>get_anode_channels(n)\<close>: \<open>cru0\<close> and \<open>cru1\<close> are the concatenations of three ranges
  each; the parity of \<open>n\<close> selects one, which is shifted by \<open>3072 * crp\<close>.
  Python's \<open>//\<close> and \<open>%\<close> are floor division and its remainder, as \<open>div\<close> and \<open>mod\<close>
  on \<open>int\<close> are.
\<close>

definition cru0 :: "int list" where
  "cru0 = arange 0 476 @ arange 952 1428 @ arange 1904 2488"

definition cru1 :: "int list" where
  "cru1 = arange 476 952 @ arange 1428 1904 @ arange 2488 3072"

definition get_anode_channels :: "int \<Rightarrow> int list" where
  "get_anode_channels n =
     (let crp = (n - n mod 2) div 2;
          channels = (if n mod 2 = 0 then cru0 else cru1)
      in add_scalar channels (3072 * crp))"

text \<open>
  \<^verbatim>\<open>get_anode_planes(anode_id)\<close> returns the dictionary \<open>{0: sort u, 1: sort v, 2: sort w}\<close>;
  \<^verbatim>\<open>np.sort\<close> sorts ascending.
\<close>

definition get_anode_planes :: "int \<Rightarrow> (int \<rightharpoonup> int list)" where
  "get_anode_planes anode_id =
     (let crp = anode_id div 2;
          cru_idx = anode_id mod 2;
          base_offset = 3072 * crp;
          u = (if cru_idx = 0 then add_scalar (arange 0 476) base_offset
               else add_scalar (arange 476 951) base_offset);
          v = (if cru_idx = 0 then add_scalar (arange 952 1428) base_offset
               else add_scalar (arange 1428 1903) base_offset);
          w = (if cru_idx = 0 then add_scalar (arange 1904 2488) base_offset
               else add_scalar (arange 2488 3071) base_offset)
      in [0 \<mapsto> sort u, 1 \<mapsto> sort v, 2 \<mapsto> sort w])"

text \<open>
  \<^verbatim>\<open>determine_anode_plane(channel)\<close> returns \<open>(anode_id, plane_id, ch_idx)\<close>; the
  \<open>if\<close>/\<open>elif\<close> chain is kept in the source's order.
\<close>

definition determine_anode_plane :: "int \<Rightarrow> int \<times> int \<times> int" where
  "determine_anode_plane channel =
     (let crp = channel div 3072;
          ch_in_crp = channel mod 3072;
          (cru, plane_in_cru, ch_idx) =
            (if ch_in_crp < 476 then (0, 0, ch_in_crp)
             else if ch_in_crp < 952 then (1, 0, ch_in_crp - 476)
             else if ch_in_crp < 1428 then (0, 1, ch_in_crp - 952)
             else if ch_in_crp < 1904 then (1, 1, ch_in_crp - 1428)
             else if ch_in_crp < 2488 then (0, 2, ch_in_crp - 1904)
             else (1, 2, ch_in_crp - 2488));
          anode_id = crp * 2 + cru;
          plane_id = plane_in_cru
      in (anode_id, plane_id, ch_idx))"

section \<open>Arrays and Python errors\<close>

text \<open>
  The exceptions the modelled code can raise. A function that can raise returns
  \<open>py_error + 'a\<close>, with \<open>Inl\<close> for the exception.
\<close>

datatype py_error = IndexError | KeyError | ZeroDivisionError | ValueError

definition bind_err :: "'e + 'a \<Rightarrow> ('a \<Rightarrow> 'e + 'b) \<Rightarrow> 'e + 'b" where
  "bind_err m f = (case m of Inl e \<Rightarrow> Inl e | Inr x \<Rightarrow> f x)"

text \<open>
  A \<^verbatim>\<open>for x in xs:\<close> loop whose body updates the loop state and may raise: the first
  exception ends the loop.
\<close>

fun for_each :: "'i list \<Rightarrow> ('i \<Rightarrow> 's \<Rightarrow> 'e + 's) \<Rightarrow> 's \<Rightarrow> 'e + 's" where
  "for_each [] body s = Inr s"
| "for_each (x # xs) body s = bind_err (body x s) (for_each xs body)"

text \<open>
  A two-dimensional numpy array: its \<open>shape\<close> \<open>(n_channels, n_ticks)\<close> and its rows.
  The shape is kept apart from the rows because an array with no rows still has a
  number of ticks. The element type stands for the array's dtype; sums need a
  commutative monoid (\<open>int\<close>, or a machine word, whose addition wraps), charges a
  linear order. Floating-point dtypes are outside the model.
\<close>

record 'a ndarray =
  shape :: "nat \<times> nat"
  rows :: "'a list list"

definition valid :: "'a ndarray \<Rightarrow> bool" where
  "valid a \<longleftrightarrow>
     length (rows a) = fst (shape a) \<and> (\<forall>r \<in> set (rows a). length r = snd (shape a))"

text \<open>\<^verbatim>\<open>np.zeros((n, m))\<close>.\<close>

definition np_zeros :: "nat \<times> nat \<Rightarrow> 'a::zero ndarray" where
  "np_zeros sh = \<lparr>shape = sh, rows = replicate (fst sh) (replicate (snd sh) 0)\<rparr>"

text \<open>
  Reading \<^verbatim>\<open>a[ch, tick]\<close> and writing \<^verbatim>\<open>a[i, j] = v\<close> with non-negative indices: an
  index outside the shape raises \<open>IndexError\<close>.
\<close>

definition at :: "'a ndarray \<Rightarrow> nat \<Rightarrow> nat \<Rightarrow> py_error + 'a" where
  "at a ch tick =
     (if ch < fst (shape a) \<and> tick < snd (shape a) then Inr (rows a ! ch ! tick)
      else Inl IndexError)"

definition put :: "'a ndarray \<Rightarrow> nat \<Rightarrow> nat \<Rightarrow> 'a \<Rightarrow> py_error + 'a ndarray" where
  "put a i j v =
     (if i < fst (shape a) \<and> j < snd (shape a)
      then Inr (a\<lparr>rows := (rows a)[i := (rows a ! i)[j := v]]\<rparr>)
      else Inl IndexError)"

text \<open>
  Fancy indexing \<^verbatim>\<open>a[plane_channels, :]\<close> with an integer index array: the rows at the
  listed channels, in the listed order. A negative index counts from the end; an index
  outside \<open>[-n, n)\<close> raises \<open>IndexError\<close>.
\<close>

definition take_rows :: "'a ndarray \<Rightarrow> int list \<Rightarrow> py_error + 'a ndarray" where
  "take_rows a chans =
     (let n = int (fst (shape a))
      in if \<forall>c \<in> set chans. - n \<le> c \<and> c < n
         then Inr \<lparr>shape = (length chans, snd (shape a)),
                   rows = map (\<lambda>c. rows a ! nat (if c < 0 then n + c else c)) chans\<rparr>
         else Inl IndexError)"

section \<open>Block aggregation (class FrameRebinner)\<close>

text \<open>
  \<^verbatim>\<open>xs.reshape(k, n, ...)\<close> along the leading axis of a sequence holding \<open>k * n\<close> items:
  the \<open>k\<close> consecutive groups of \<open>n\<close> items.
\<close>

definition reshape_groups :: "nat \<Rightarrow> nat \<Rightarrow> 'b list \<Rightarrow> 'b list list" where
  "reshape_groups k n xs = map (\<lambda>i. take n (drop (i * n) xs)) [0..<k]"

text \<open>
  \<^verbatim>\<open>np.sum(a, axis=1)\<close> for \<open>a\<close> of shape \<open>(k, n, n_ticks)\<close>: within each group, the rows
  are added tick by tick.
\<close>

definition np_sum_axis1 :: "nat \<Rightarrow> 'a::comm_monoid_add list list list \<Rightarrow> 'a list list" where
  "np_sum_axis1 n_ticks groups =
     map (\<lambda>g. map (\<lambda>t. sum_list (map (\<lambda>row. row ! t) g)) [0..<n_ticks]) groups"

text \<open>\<^verbatim>\<open>np.sum(a, axis=2)\<close> for \<open>a\<close> of shape \<open>(k, m, n)\<close>: each innermost group is summed.\<close>

definition np_sum_axis2 :: "'a::comm_monoid_add list list list \<Rightarrow> 'a list list" where
  "np_sum_axis2 a = map (map sum_list) a"

text \<open>
  \<^verbatim>\<open>rebin_sum(data, rebin_time, rebin_channel)\<close>. The two floor divisions come first and
  raise \<open>ZeroDivisionError\<close> on a zero factor. With a negative factor one of the two
  \<^verbatim>\<open>reshape\<close> calls gets a negative dimension next to a second negative or a zero one,
  which numpy rejects with \<open>ValueError\<close>. With positive factors the slices hold exactly
  the items the reshapes ask for.
\<close>

definition rebin_sum ::
  "'a::comm_monoid_add ndarray \<Rightarrow> int \<Rightarrow> int \<Rightarrow> py_error + 'a ndarray" where
  "rebin_sum data rebin_time rebin_channel =
     (let (n_ch, n_ticks) = shape data
      in if rebin_channel = 0 \<or> rebin_time = 0 then Inl ZeroDivisionError
         else
           let n_ch_new = int n_ch div rebin_channel;
               n_ticks_new = int n_ticks div rebin_time
           in if rebin_channel < 0 \<or> rebin_time < 0 then Inl ValueError
              else
                let data_ch = np_sum_axis1 n_ticks
                      (reshape_groups (nat n_ch_new) (nat rebin_channel)
                         (take (nat (n_ch_new * rebin_channel)) (rows data)));
                    data_rebin = np_sum_axis2
                      (map (\<lambda>row. reshape_groups (nat n_ticks_new) (nat rebin_time)
                                    (take (nat (n_ticks_new * rebin_time)) row)) data_ch)
                in Inr \<lparr>shape = (nat n_ch_new, nat n_ticks_new), rows = data_rebin\<rparr>)"

text \<open>
  \<^verbatim>\<open>contributions.sort(key=lambda x: x[0], reverse=True)\<close>: Python's sort is stable, and
  with \<^verbatim>\<open>reverse=True\<close> it reverses the list, sorts it ascending and reverses the result,
  so that pairs of equal charge keep the order they were collected in.
\<close>

definition sort_charge_desc :: "('c::linorder \<times> 'l) list \<Rightarrow> ('c \<times> 'l) list" where
  "sort_charge_desc contributions = rev (sort_key fst (rev contributions))"

text \<open>
  The body of the two innermost loops of \<^verbatim>\<open>rebin_track_first_second\<close>, for one cell
  \<open>(ch, tick)\<close>: the two conditional appends to \<open>contributions\<close>.
\<close>

definition collect_cell ::
  "'l ndarray \<Rightarrow> 'l ndarray \<Rightarrow> 'c::{linorder,zero} ndarray \<Rightarrow> 'c ndarray \<Rightarrow>
   nat \<Rightarrow> nat \<Rightarrow> ('c \<times> 'l) list \<Rightarrow> py_error + ('c \<times> 'l) list" where
  "collect_cell data_1st data_2nd charge_1st charge_2nd ch tick contributions =
     bind_err (at charge_1st ch tick) (\<lambda>q1.
     bind_err (if 0 < q1
               then bind_err (at data_1st ch tick) (\<lambda>l1. Inr (contributions @ [(q1, l1)]))
               else Inr contributions) (\<lambda>contributions.
     bind_err (at charge_2nd ch tick) (\<lambda>q2.
       if 0 < q2
       then bind_err (at data_2nd ch tick) (\<lambda>l2. Inr (contributions @ [(q2, l2)]))
       else Inr contributions)))"

text \<open>
  The body of the loop over \<open>i_tick\<close>, for the output block \<open>(i_ch, i_tick)\<close>: collect the
  contributions of the block's cells, then write the labels of the two largest charges.
  The loops only run when both factors are positive (otherwise there is no output row or
  column), so the factors are natural numbers here.
\<close>

definition rebin_block ::
  "'l ndarray \<Rightarrow> 'l ndarray \<Rightarrow> 'c::{linorder,zero} ndarray \<Rightarrow> 'c ndarray \<Rightarrow>
   nat \<Rightarrow> nat \<Rightarrow> nat \<Rightarrow> nat \<Rightarrow> nat \<Rightarrow> nat \<Rightarrow>
   'l ndarray \<times> 'l ndarray \<Rightarrow> py_error + 'l ndarray \<times> 'l ndarray" where
  "rebin_block data_1st data_2nd charge_1st charge_2nd rebin_time rebin_channel n_ch n_ticks
       i_ch i_tick out =
     (let (out_1st, out_2nd) = out;
          ch_start = i_ch * rebin_channel;
          ch_end = min (ch_start + rebin_channel) n_ch;
          tick_start = i_tick * rebin_time;
          tick_end = min (tick_start + rebin_time) n_ticks
      in bind_err
           (for_each [ch_start..<ch_end] (\<lambda>ch.
              for_each [tick_start..<tick_end] (\<lambda>tick.
                collect_cell data_1st data_2nd charge_1st charge_2nd ch tick)) [])
           (\<lambda>contributions.
              if length contributions > 0
              then
                let contributions = sort_charge_desc contributions
                in bind_err (put out_1st i_ch i_tick (snd (contributions ! 0))) (\<lambda>out_1st.
                     if length contributions > 1
                     then bind_err (put out_2nd i_ch i_tick (snd (contributions ! 1)))
                            (\<lambda>out_2nd. Inr (out_1st, out_2nd))
                     else Inr (out_1st, out_2nd))
              else Inr (out_1st, out_2nd)))"

text \<open>
  \<^verbatim>\<open>rebin_track_first_second\<close>. A zero factor raises \<open>ZeroDivisionError\<close> in the floor
  divisions; a negative output dimension makes \<^verbatim>\<open>np.zeros\<close> raise \<open>ValueError\<close>.
\<close>

definition rebin_track_first_second ::
  "'l::zero ndarray \<Rightarrow> 'l ndarray \<Rightarrow> 'c::{linorder,zero} ndarray \<Rightarrow> 'c ndarray \<Rightarrow>
   int \<Rightarrow> int \<Rightarrow> py_error + 'l ndarray \<times> 'l ndarray" where
  "rebin_track_first_second data_1st data_2nd charge_1st charge_2nd rebin_time rebin_channel =
     (let (n_ch, n_ticks) = shape data_1st
      in if rebin_channel = 0 \<or> rebin_time = 0 then Inl ZeroDivisionError
         else
           let n_ch_new = int n_ch div rebin_channel;
               n_ticks_new = int n_ticks div rebin_time
           in if n_ch_new < 0 \<or> n_ticks_new < 0 then Inl ValueError
              else
                for_each [0..<nat n_ch_new] (\<lambda>i_ch.
                  for_each [0..<nat n_ticks_new] (\<lambda>i_tick.
                    rebin_block data_1st data_2nd charge_1st charge_2nd
                      (nat rebin_time) (nat rebin_channel) n_ch n_ticks i_ch i_tick))
                  (np_zeros (nat n_ch_new, nat n_ticks_new),
                   np_zeros (nat n_ch_new, nat n_ticks_new)))"

subsection \<open>The aggregation rules in the specification's words\<close>

text \<open>
  The block \<open>(i, j)\<close> of the input covers the channels \<open>i * c ..< i * c + c\<close> and the
  ticks \<open>j * t ..< j * t + t\<close>. \<open>spec_block_sum\<close> is the sum of its cells.
\<close>

definition spec_block_sum ::
  "'a::comm_monoid_add ndarray \<Rightarrow> nat \<Rightarrow> nat \<Rightarrow> nat \<Rightarrow> nat \<Rightarrow> 'a" where
  "spec_block_sum data t c i j =
     (\<Sum>ch = i * c..<i * c + c. \<Sum>tick = j * t..<j * t + t. rows data ! ch ! tick)"

text \<open>
  \<open>spec_block_pairs\<close> lists every \<open>(charge, label)\<close> pair of the block with a charge
  above 0, from both the 1st and the 2nd arrays, row-major over channel then tick, the
  1st-array pair of a cell before its 2nd-array pair.
\<close>

definition spec_cell_pairs ::
  "'l ndarray \<Rightarrow> 'l ndarray \<Rightarrow> 'c::{linorder,zero} ndarray \<Rightarrow> 'c ndarray \<Rightarrow>
   nat \<Rightarrow> nat \<Rightarrow> ('c \<times> 'l) list" where
  "spec_cell_pairs data_1st data_2nd charge_1st charge_2nd ch tick =
     (if 0 < rows charge_1st ! ch ! tick
      then [(rows charge_1st ! ch ! tick, rows data_1st ! ch ! tick)] else []) @
     (if 0 < rows charge_2nd ! ch ! tick
      then [(rows charge_2nd ! ch ! tick, rows data_2nd ! ch ! tick)] else [])"

definition spec_block_pairs ::
  "'l ndarray \<Rightarrow> 'l ndarray \<Rightarrow> 'c::{linorder,zero} ndarray \<Rightarrow> 'c ndarray \<Rightarrow>
   nat \<Rightarrow> nat \<Rightarrow> nat \<Rightarrow> nat \<Rightarrow> ('c \<times> 'l) list" where
  "spec_block_pairs data_1st data_2nd charge_1st charge_2nd t c i j =
     concat (map (\<lambda>ch.
       concat (map (\<lambda>tick. spec_cell_pairs data_1st data_2nd charge_1st charge_2nd ch tick)
                 [j * t..<j * t + t]))
       [i * c..<i * c + c])"

text \<open>
  \<open>ranked_desc pairs ranked\<close>: \<open>ranked\<close> is \<open>pairs\<close> sorted by charge, descending, pairs of
  equal charge in the order of \<open>pairs\<close>.
\<close>

definition ranked_desc :: "('c::linorder \<times> 'l) list \<Rightarrow> ('c \<times> 'l) list \<Rightarrow> bool" where
  "ranked_desc pairs ranked \<longleftrightarrow>
     length ranked = length pairs \<and>
     sorted_wrt (\<lambda>p q. fst q \<le> fst p) ranked \<and>
     (\<forall>k \<in> fst ` set pairs \<union> fst ` set ranked.
        filter (\<lambda>p. fst p = k) ranked = filter (\<lambda>p. fst p = k) pairs)"

text \<open>The label of the pair at rank \<open>k\<close>, or 0 when there is no such pair.\<close>

definition label_at_rank :: "('c \<times> 'l::zero) list \<Rightarrow> nat \<Rightarrow> 'l" where
  "label_at_rank ranked k = (if k < length ranked then snd (ranked ! k) else 0)"

text \<open>Elementwise \<open>A + B\<close> of two arrays of the same shape.\<close>

definition add_arrays :: "'a::comm_monoid_add ndarray \<Rightarrow> 'a ndarray \<Rightarrow> 'a ndarray" where
  "add_arrays a b = \<lparr>shape = shape a, rows = map2 (map2 (+)) (rows a) (rows b)\<rparr>"

section \<open>The pipeline (class HDF5FrameProcessor)\<close>

text \<open>
  A Python dictionary with string keys is an association list with distinct keys, in
  insertion order. \<open>dict_set\<close> is \<^verbatim>\<open>d[k] = v\<close> (an existing key keeps its place),
  \<open>dict_get\<close> is \<^verbatim>\<open>d[k]\<close> (\<open>KeyError\<close> on a missing key), \<open>dict_has\<close> is \<^verbatim>\<open>k in d\<close>, and
  \<open>dict_merge a b\<close> is \<^verbatim>\<open>{**a, **b}\<close>.
\<close>

fun dict_set :: "'k \<Rightarrow> 'v \<Rightarrow> ('k \<times> 'v) list \<Rightarrow> ('k \<times> 'v) list" where
  "dict_set k v [] = [(k, v)]"
| "dict_set k v ((k', v') # d) =
     (if k = k' then (k, v) # d else (k', v') # dict_set k v d)"

definition dict_get :: "('k \<times> 'v) list \<Rightarrow> 'k \<Rightarrow> py_error + 'v" where
  "dict_get d k = (case map_of d k of None \<Rightarrow> Inl KeyError | Some v \<Rightarrow> Inr v)"

definition dict_has :: "('k \<times> 'v) list \<Rightarrow> 'k \<Rightarrow> bool" where
  "dict_has d k \<longleftrightarrow> k \<in> set (map fst d)"

definition dict_merge :: "('k \<times> 'v) list \<Rightarrow> ('k \<times> 'v) list \<Rightarrow> ('k \<times> 'v) list" where
  "dict_merge a b = fold (\<lambda>(k, v). dict_set k v) b a"

text \<open>
  The lines \<^verbatim>\<open>process\<close> prints about its inputs: the names of the frames loaded from each
  file, and the two error lines of the shape check,
  \<^verbatim>\<open>ERROR: {name} has shape {data.shape}, expected {first_shape}\<close> and
  \<^verbatim>\<open>ERROR: Dimension mismatch!\<close>. The progress lines are left out.
\<close>

datatype log_line =
    Loaded_rec "string list"
  | Loaded_tru "string list"
  | Shape_error string "nat \<times> nat" "nat \<times> nat"
  | Dimension_mismatch

text \<open>
  \<^verbatim>\<open>verify_dimensions(frames)\<close>: the loop keeps the shape of the first frame and stops at
  the first frame of another shape, printing its name. The result is the printed lines
  and the returned boolean.
\<close>

fun verify_loop ::
  "(string \<times> 'a ndarray) list \<Rightarrow> (nat \<times> nat) option \<Rightarrow> log_line list \<times> bool" where
  "verify_loop [] first_shape = ([], True)"
| "verify_loop ((name, data) # frames) first_shape =
     (case first_shape of
        None \<Rightarrow> verify_loop frames (Some (shape data))
      | Some fs \<Rightarrow>
          if shape data \<noteq> fs then ([Shape_error name (shape data) fs], False)
          else verify_loop frames first_shape)"

definition verify_dimensions :: "(string \<times> 'a ndarray) list \<Rightarrow> log_line list \<times> bool" where
  "verify_dimensions frames = (if frames = [] then ([], True) else verify_loop frames None)"

text \<open>Decimal digits of a natural number, for the f-strings that build the output keys.\<close>

fun str_nat :: "nat \<Rightarrow> string" where
  "str_nat n =
     (if n < 10 then [''0123456789'' ! n]
      else str_nat (n div 10) @ [''0123456789'' ! (n mod 10)])"

declare str_nat.simps [simp del]

text \<open>
  The steps of the loop body of \<^verbatim>\<open>process\<close> for one anode and plane, each updating the
  dictionary \<open>rebinned_data\<close>. The first step is the \<^verbatim>\<open>frame_gauss\<close> block.
\<close>

definition rebin_gauss ::
  "(string \<times> 'a::{comm_monoid_add,linorder} ndarray) list \<Rightarrow> int \<Rightarrow> int \<Rightarrow> int list \<Rightarrow>
   string \<Rightarrow> (string \<times> 'a ndarray) list \<Rightarrow> py_error + (string \<times> 'a ndarray) list" where
  "rebin_gauss frames_rec rebin_time rebin_channel plane_channels plane_key rebinned_data =
     (if dict_has frames_rec ''frame_gauss''
      then
        bind_err (dict_get frames_rec ''frame_gauss'') (\<lambda>frame.
        bind_err (take_rows frame plane_channels) (\<lambda>data.
        bind_err (rebin_sum data rebin_time rebin_channel) (\<lambda>rebinned.
        Inr (dict_set (plane_key @ ''_gauss'') rebinned rebinned_data))))
      else Inr rebinned_data)"

text \<open>
  The source repeats one block for each of the label kinds \<^verbatim>\<open>orig_trackid\<close>,
  \<^verbatim>\<open>orig_pid\<close> and \<^verbatim>\<open>current_pid\<close>; \<open>rebin_label_kind\<close> is that block, with the kind's
  name as a parameter. The guard tests the key \<^verbatim>\<open>{kind}_1st\<close> only; the four frames are
  then read in the order \<^verbatim>\<open>charge_1st\<close>, \<^verbatim>\<open>charge_2nd\<close>, \<^verbatim>\<open>{kind}_1st\<close>, \<^verbatim>\<open>{kind}_2nd\<close>.
\<close>

definition rebin_label_kind ::
  "(string \<times> 'a::{comm_monoid_add,linorder} ndarray) list \<Rightarrow> int \<Rightarrow> int \<Rightarrow> int list \<Rightarrow>
   string \<Rightarrow> string \<Rightarrow> (string \<times> 'a ndarray) list \<Rightarrow>
   py_error + (string \<times> 'a ndarray) list" where
  "rebin_label_kind frames_tru rebin_time rebin_channel plane_channels plane_key kind
       rebinned_data =
     (if dict_has frames_tru (kind @ ''_1st'')
      then
        bind_err (dict_get frames_tru ''charge_1st'') (\<lambda>frame.
        bind_err (take_rows frame plane_channels) (\<lambda>charge_1st.
        bind_err (dict_get frames_tru ''charge_2nd'') (\<lambda>frame.
        bind_err (take_rows frame plane_channels) (\<lambda>charge_2nd.
        bind_err (dict_get frames_tru (kind @ ''_1st'')) (\<lambda>frame.
        bind_err (take_rows frame plane_channels) (\<lambda>data_1st.
        bind_err (dict_get frames_tru (kind @ ''_2nd'')) (\<lambda>frame.
        bind_err (take_rows frame plane_channels) (\<lambda>data_2nd.
        bind_err (rebin_track_first_second data_1st data_2nd charge_1st charge_2nd
                    rebin_time rebin_channel) (\<lambda>out.
        Inr (dict_set (plane_key @ ''_'' @ kind @ ''_2nd'') (snd out)
               (dict_set (plane_key @ ''_'' @ kind @ ''_1st'') (fst out)
                  rebinned_data)))))))))))
      else Inr rebinned_data)"

text \<open>The \<^verbatim>\<open>charge_1st\<close> block: both charge frames are rebinned by summation.\<close>

definition rebin_charge ::
  "(string \<times> 'a::{comm_monoid_add,linorder} ndarray) list \<Rightarrow> int \<Rightarrow> int \<Rightarrow> int list \<Rightarrow>
   string \<Rightarrow> (string \<times> 'a ndarray) list \<Rightarrow> py_error + (string \<times> 'a ndarray) list" where
  "rebin_charge frames_tru rebin_time rebin_channel plane_channels plane_key rebinned_data =
     (if dict_has frames_tru ''charge_1st''
      then
        bind_err (dict_get frames_tru ''charge_1st'') (\<lambda>frame.
        bind_err (take_rows frame plane_channels) (\<lambda>charge_1st.
        bind_err (dict_get frames_tru ''charge_2nd'') (\<lambda>frame.
        bind_err (take_rows frame plane_channels) (\<lambda>charge_2nd.
        bind_err (rebin_sum charge_1st rebin_time rebin_channel) (\<lambda>rebinned_1st.
        bind_err (rebin_sum charge_2nd rebin_time rebin_channel) (\<lambda>rebinned_2nd.
        Inr (dict_set (plane_key @ ''_charge_2nd'') rebinned_2nd
               (dict_set (plane_key @ ''_charge_1st'') rebinned_1st rebinned_data))))))))
      else Inr rebinned_data)"

text \<open>
  The body of the loop over \<open>plane_id\<close>. The set \<^verbatim>\<open>processed_frames\<close> of the source is
  written and never read, and is left out.
\<close>

definition process_plane ::
  "(string \<times> 'a::{comm_monoid_add,linorder} ndarray) list \<Rightarrow> (string \<times> 'a ndarray) list \<Rightarrow>
   int \<Rightarrow> int \<Rightarrow> nat \<Rightarrow> nat \<Rightarrow> (string \<times> 'a ndarray) list \<Rightarrow>
   py_error + (string \<times> 'a ndarray) list" where
  "process_plane frames_rec frames_tru rebin_time rebin_channel anode_id plane_id
       rebinned_data =
     (let planes = get_anode_planes (int anode_id)
      in bind_err (case planes (int plane_id) of None \<Rightarrow> Inl KeyError | Some chs \<Rightarrow> Inr chs)
           (\<lambda>plane_channels.
         let plane_key = ''anode'' @ str_nat anode_id @ ''_plane'' @ str_nat plane_id
         in bind_err (rebin_gauss frames_rec rebin_time rebin_channel plane_channels
                        plane_key rebinned_data) (\<lambda>rebinned_data.
            bind_err (rebin_label_kind frames_tru rebin_time rebin_channel plane_channels
                        plane_key ''orig_trackid'' rebinned_data) (\<lambda>rebinned_data.
            bind_err (rebin_label_kind frames_tru rebin_time rebin_channel plane_channels
                        plane_key ''orig_pid'' rebinned_data) (\<lambda>rebinned_data.
            bind_err (rebin_label_kind frames_tru rebin_time rebin_channel plane_channels
                        plane_key ''current_pid'' rebinned_data) (\<lambda>rebinned_data.
            rebin_charge frames_tru rebin_time rebin_channel plane_channels
              plane_key rebinned_data))))))"

text \<open>
  The name under which a rebinned array is stored in the output file:
  \<^verbatim>\<open>f"frame_{key}" if not key.startswith('frame_') else key\<close>.
\<close>

definition output_key :: "string \<Rightarrow> string" where
  "output_key key = (if take 6 key = ''frame_'' then key else ''frame_'' @ key)"

text \<open>
  What a call of \<^verbatim>\<open>process\<close> that raises nothing leaves behind: the lines it printed, the
  boolean it returned, and the datasets of the output file (\<open>None\<close> when the file was
  never opened).
\<close>

record 'a run =
  printed :: "log_line list"
  returned :: bool
  datasets :: "(string \<times> 'a ndarray) list option"

text \<open>
  \<^verbatim>\<open>process\<close>, from the point where the two loading loops have filled the dictionaries
  \<open>frames_rec\<close> and \<open>frames_tru\<close> (the frames of the two input files, under their names
  without the \<^verbatim>\<open>frame_\<close> prefix). Frames are two-dimensional. The shape of the first frame
  of \<open>all_frames\<close> is read with \<^verbatim>\<open>list(all_frames.values())[0]\<close>, which raises
  \<open>IndexError\<close> on an empty dictionary. The constructor stores the two factors as they
  are given, and \<^verbatim>\<open>process\<close> hands them to the aggregation functions. The dictionary
  \<^verbatim>\<open>anode_grouping\<close> is built and never read, and is left out. Writing the datasets to
  the output file is taken to succeed: the HDF5 library is outside the model.
\<close>

definition process ::
  "int \<Rightarrow> int \<Rightarrow> (string \<times> 'a::{comm_monoid_add,linorder} ndarray) list \<Rightarrow>
   (string \<times> 'a ndarray) list \<Rightarrow> py_error + 'a run" where
  "process rebin_time rebin_channel frames_rec frames_tru =
     (let loaded = [Loaded_rec (map fst frames_rec), Loaded_tru (map fst frames_tru)];
          all_frames = dict_merge frames_rec frames_tru;
          (errors, ok) = verify_dimensions all_frames
      in if \<not> ok
         then Inr \<lparr>printed = loaded @ errors @ [Dimension_mismatch], returned = False,
                   datasets = None\<rparr>
         else
           case all_frames of
             [] \<Rightarrow> Inl IndexError
           | first # _ \<Rightarrow>
               bind_err
                 (for_each [0..<8] (\<lambda>anode_id.
                    for_each [0..<3] (\<lambda>plane_id.
                      process_plane frames_rec frames_tru rebin_time rebin_channel
                        anode_id plane_id)) [])
                 (\<lambda>rebinned_data.
                    Inr \<lparr>printed = loaded, returned = True,
                         datasets =
                           Some (map (\<lambda>(key, data). (output_key key, data)) rebinned_data)\<rparr>))"

subsection \<open>Notions used to state and prove the properties\<close>

text \<open>
  \<open>nothing_to_rebin\<close>: none of the five keys that start an aggregation in the loop body
  is present.
\<close>

definition nothing_to_rebin ::
  "(string \<times> 'a ndarray) list \<Rightarrow> (string \<times> 'a ndarray) list \<Rightarrow> bool" where
  "nothing_to_rebin frames_rec frames_tru \<longleftrightarrow>
     \<not> dict_has frames_rec ''frame_gauss'' \<and> \<not> dict_has frames_tru ''orig_trackid_1st'' \<and>
     \<not> dict_has frames_tru ''orig_pid_1st'' \<and> \<not> dict_has frames_tru ''current_pid_1st'' \<and>
     \<not> dict_has frames_tru ''charge_1st''"

text \<open>\<open>charges_read\<close>: both charge frames are present and can be sliced to the plane.\<close>

definition charges_read :: "(string \<times> 'a ndarray) list \<Rightarrow> int list \<Rightarrow> bool" where
  "charges_read frames_tru chs \<longleftrightarrow>
     (case bind_err (dict_get frames_tru ''charge_1st'') (\<lambda>frame.
           bind_err (take_rows frame chs) (\<lambda>charge_1st.
           bind_err (dict_get frames_tru ''charge_2nd'') (\<lambda>frame.
           take_rows frame chs)))
      of Inl e \<Rightarrow> False | Inr charge_2nd \<Rightarrow> True)"

text \<open>
  \<open>complete_quadruples\<close>: every label kind whose \<^verbatim>\<open>{kind}_1st\<close> frame is present comes with
  its \<^verbatim>\<open>{kind}_2nd\<close> frame and the two charge frames, and \<^verbatim>\<open>charge_1st\<close> comes with
  \<^verbatim>\<open>charge_2nd\<close>.
\<close>

definition complete_quadruples :: "(string \<times> 'a ndarray) list \<Rightarrow> bool" where
  "complete_quadruples frames_tru \<longleftrightarrow>
     (\<forall>kind \<in> {''orig_trackid'', ''orig_pid'', ''current_pid''}.
        dict_has frames_tru (kind @ ''_1st'') \<longrightarrow>
        dict_has frames_tru (kind @ ''_2nd'') \<and> dict_has frames_tru ''charge_1st'') \<and>
     (dict_has frames_tru ''charge_1st'' \<longrightarrow> dict_has frames_tru ''charge_2nd'')"

text \<open>
  \<open>aggregated_suffixes\<close>: the endings of the keys that the loop body adds for one plane,
  given which frames are present.
\<close>

definition aggregated_suffixes ::
  "(string \<times> 'a ndarray) list \<Rightarrow> (string \<times> 'a ndarray) list \<Rightarrow> string list" where
  "aggregated_suffixes frames_rec frames_tru =
     (if dict_has frames_rec ''frame_gauss'' then [''_gauss''] else []) @
     concat (map (\<lambda>kind. if dict_has frames_tru (kind @ ''_1st'')
                           then [''_'' @ kind @ ''_1st'', ''_'' @ kind @ ''_2nd''] else [])
               [''orig_trackid'', ''orig_pid'', ''current_pid'']) @
     (if dict_has frames_tru ''charge_1st'' then [''_charge_1st'', ''_charge_2nd''] else [])"

text \<open>
  \<open>block_label \<dots> k i j\<close>: the label at rank \<open>k\<close> among the pairs of block \<open>(i, j)\<close>, as
  Python's sort ranks them.
\<close>

definition block_label ::
  "'l::zero ndarray \<Rightarrow> 'l ndarray \<Rightarrow> 'c::{linorder,zero} ndarray \<Rightarrow> 'c ndarray \<Rightarrow>
   nat \<Rightarrow> nat \<Rightarrow> nat \<Rightarrow> nat \<Rightarrow> nat \<Rightarrow> 'l" where
  "block_label data_1st data_2nd charge_1st charge_2nd t c k i j =
     label_at_rank
       (sort_charge_desc (spec_block_pairs data_1st data_2nd charge_1st charge_2nd t c i j)) k"

text \<open>
  The invariant of the two output loops: \<open>filled F n m k l a\<close> says that \<open>a\<close> is an \<open>n\<close> by
  \<open>m\<close> array whose cells before position \<open>(k, l)\<close>, row by row, hold the values of \<open>F\<close>, and
  whose other cells still hold the 0 of \<^verbatim>\<open>np.zeros\<close>.
\<close>

definition filled ::
  "(nat \<Rightarrow> nat \<Rightarrow> 'a::zero) \<Rightarrow> nat \<Rightarrow> nat \<Rightarrow> nat \<Rightarrow> nat \<Rightarrow> 'a ndarray \<Rightarrow> bool" where
  "filled F n m k l a \<longleftrightarrow>
     shape a = (n, m) \<and> valid a \<and>
     (\<forall>i < n. \<forall>j < m. rows a ! i ! j = (if i < k \<or> (i = k \<and> j < l) then F i j else 0))"

section \<open>Properties of the channel topology\<close>

lemma length_arange: "length (arange a b) = nat (b - a)"
  by (simp add: arange_def)

lemma nth_arange: "i < nat (b - a) \<Longrightarrow> arange a b ! i = a + int i"
  by (simp add: arange_def)

lemma set_arange: "set (arange a b) = {a..<b}"
  by (auto simp: arange_def)

lemma sorted_add_scalar_arange: "sorted_wrt (<) (add_scalar (arange a b) k)"
  by (simp add: add_scalar_def arange_def sorted_wrt_map sorted_wrt_upto)

lemma sort_add_scalar_arange: "sort (add_scalar (arange a b) k) = add_scalar (arange a b) k"
  using sorted_add_scalar_arange [of a b k]
  by (simp add: sorted_sort_id strict_sorted_iff)

lemma sorted_add_scalar: "sorted_wrt (<) xs \<Longrightarrow> sorted_wrt (<) (add_scalar xs k)"
  by (simp add: add_scalar_def sorted_wrt_map)

lemma length_add_scalar [simp]: "length (add_scalar xs k) = length xs"
  by (simp add: add_scalar_def)

lemma add_scalar_append: "add_scalar (xs @ ys) k = add_scalar xs k @ add_scalar ys k"
  by (simp add: add_scalar_def)

lemma nth_add_scalar_arange:
  "i < nat (b - a) \<Longrightarrow> add_scalar (arange a b) k ! i = a + int i + k"
  by (simp add: add_scalar_def length_arange nth_arange)

lemma set_add_scalar_arange: "set (add_scalar (arange a b) k) = {a + k..<b + k}"
proof -
  have "x \<in> (\<lambda>x. x + k) ` {a..<b} \<longleftrightarrow> a + k \<le> x \<and> x < b + k" for x
    by (auto intro: image_eqI [of _ _ "x - k"])
  then show ?thesis by (auto simp: add_scalar_def set_arange)
qed

lemma planes_even: "a mod 2 = 0 \<Longrightarrow> get_anode_planes a =
   [0 \<mapsto> add_scalar (arange 0 476) (3072 * (a div 2)),
    1 \<mapsto> add_scalar (arange 952 1428) (3072 * (a div 2)),
    2 \<mapsto> add_scalar (arange 1904 2488) (3072 * (a div 2))]"
  by (simp add: get_anode_planes_def Let_def sort_add_scalar_arange)

lemma planes_odd: "a mod 2 \<noteq> 0 \<Longrightarrow> get_anode_planes a =
   [0 \<mapsto> add_scalar (arange 476 951) (3072 * (a div 2)),
    1 \<mapsto> add_scalar (arange 1428 1903) (3072 * (a div 2)),
    2 \<mapsto> add_scalar (arange 2488 3071) (3072 * (a div 2))]"
  by (simp add: get_anode_planes_def Let_def sort_add_scalar_arange)

text \<open>A channel \<open>c + 3072 * q\<close> with \<open>0 \<le> c < 3072\<close> is located by its offset \<open>c\<close> alone.\<close>

lemma determine_shift:
  assumes "0 \<le> c" "c < 3072"
  shows "determine_anode_plane (c + 3072 * q) =
     (let (cru, p, i) =
            (if c < 476 then (0, 0, c)
             else if c < 952 then (1, 0, c - 476)
             else if c < 1428 then (0, 1, c - 952)
             else if c < 1904 then (1, 1, c - 1428)
             else if c < 2488 then (0, 2, c - 1904)
             else (1, 2, c - 2488))
      in (q * 2 + cru, p, i))"
proof -
  have d: "(c + 3072 * q) div 3072 = q" using assms by (simp add: div_pos_pos_trivial)
  have m: "(c + 3072 * q) mod 3072 = c" using assms by (simp add: mod_pos_pos_trivial)
  show ?thesis unfolding determine_anode_plane_def d m by (simp add: Let_def)
qed

text \<open>
  Claim C3. For every anode id (in particular 0..7) and every plane id in \<open>{0, 1, 2}\<close>,
  \<open>get_anode_planes\<close> has a strictly ascending channel list for that plane, and
  \<open>determine_anode_plane\<close> maps the channel at position \<open>i\<close> of that list back to
  \<open>(anode_id, plane_id, i)\<close>: it inverts \<open>get_anode_planes\<close>, the third component being
  the channel's rank in the sorted plane set.
\<close>

theorem determine_anode_plane_inverts_get_anode_planes:
  assumes p: "plane_id \<in> {0, 1, 2}"
  shows "\<exists>chs. get_anode_planes anode_id plane_id = Some chs \<and> sorted_wrt (<) chs \<and>
          (\<forall>i < length chs. determine_anode_plane (chs ! i) = (anode_id, plane_id, int i))"
proof (cases "anode_id mod 2 = 0")
  case True
  then have a: "anode_id div 2 * 2 = anode_id" by presburger
  show ?thesis using p
    by (auto simp: planes_even [OF True] sorted_add_scalar_arange length_arange
        nth_add_scalar_arange determine_shift a)
next
  case False
  then have a: "anode_id div 2 * 2 + 1 = anode_id" by presburger
  show ?thesis using p
    by (auto simp: planes_odd [OF False] sorted_add_scalar_arange length_arange
        nth_add_scalar_arange determine_shift a)
qed

text \<open>
  The theorem at anode 3, plane 1 (V): the plane's channels are \<open>1428..1902\<close> shifted by
  3072, and the channel at rank 5 is sent back to \<open>(3, 1, 5)\<close>.
\<close>

theorem determine_anode_plane_inverts_get_anode_planes_witness:
  "(1::int) \<in> {0, 1, 2} \<and>
   get_anode_planes 3 1 = Some (add_scalar (arange 1428 1903) 3072) \<and>
   (5::nat) < length (add_scalar (arange 1428 1903) 3072) \<and>
   determine_anode_plane (add_scalar (arange 1428 1903) 3072 ! 5) = (3, 1, 5)"
proof -
  have p: "(1::int) \<in> {0, 1, 2}" by simp
  have e: "get_anode_planes 3 1 = Some (add_scalar (arange 1428 1903) 3072)"
    by (simp add: planes_odd)
  have l: "(5::nat) < length (add_scalar (arange 1428 1903) 3072)"
    by (simp add: length_arange)
  from determine_anode_plane_inverts_get_anode_planes [OF p, of 3] e l
  have "determine_anode_plane (add_scalar (arange 1428 1903) 3072 ! 5) = (3, 1, int 5)"
    by auto
  with p e l show ?thesis by simp
qed

lemma crp_eq: "(n - n mod 2) div 2 = n div (2::int)"
  by presburger

lemma length_cru0: "length cru0 = 1536"
  by (simp add: cru0_def length_arange)

lemma length_cru1: "length cru1 = 1536"
  by (simp add: cru1_def length_arange)

lemma sorted_arange: "sorted_wrt (<) (arange a b)"
  by (simp add: arange_def)

lemma sorted_cru0: "sorted_wrt (<) cru0"
  by (auto simp: cru0_def set_arange sorted_wrt_append sorted_arange)

lemma sorted_cru1: "sorted_wrt (<) cru1"
  by (auto simp: cru1_def set_arange sorted_wrt_append sorted_arange)

lemma get_anode_channels_eq:
  "get_anode_channels n = add_scalar (if n mod 2 = 0 then cru0 else cru1) (3072 * (n div 2))"
  unfolding get_anode_channels_def Let_def crp_eq ..

text \<open>
  Claim C4, as stated, asks for exactly 1428 channels per anode. The three ranges of
  \<open>cru0\<close> hold 476 + 476 + 584 = 1536 channels, so anode 0 already has 1536.
\<close>

theorem get_anode_channels_length_counterexample:
  "length (get_anode_channels 0) \<noteq> 1428"
  by (simp add: get_anode_channels_eq length_cru0)

text \<open>
  Claim C4, amended. For every anode id (in particular 0..7), \<open>get_anode_channels\<close>
  returns exactly 1536 channel indices, strictly ascending (U block, then V, then W),
  equal to the even-parity base ranges \<open>[0,476) \<union> [952,1428) \<union> [1904,2488)\<close> or the
  odd-parity base ranges \<open>[476,952) \<union> [1428,1904) \<union> [2488,3072)\<close>, shifted by
  \<open>3072 * (anode_id div 2)\<close>.
\<close>

theorem get_anode_channels_ranges:
  "length (get_anode_channels n) = 1536 \<and>
   sorted_wrt (<) (get_anode_channels n) \<and>
   get_anode_channels n =
     map (\<lambda>c. c + 3072 * (n div 2))
       (if n mod 2 = 0 then [0..475] @ [952..1427] @ [1904..2487]
        else [476..951] @ [1428..1903] @ [2488..3071])"
proof -
  have "cru0 = [0..475] @ [952..1427] @ [1904..2487]"
    by (simp add: cru0_def arange_def del: upto_rec_numeral)
  moreover have "cru1 = [476..951] @ [1428..1903] @ [2488..3071]"
    by (simp add: cru1_def arange_def del: upto_rec_numeral)
  moreover have "length (get_anode_channels n) = 1536"
    by (simp add: get_anode_channels_def Let_def length_cru0 length_cru1)
  moreover have "sorted_wrt (<) (get_anode_channels n)"
    by (simp add: get_anode_channels_def Let_def sorted_add_scalar sorted_cru0 sorted_cru1)
  ultimately show ?thesis
    by (simp add: get_anode_channels_def Let_def crp_eq add_scalar_def del: upto_rec_numeral)
qed

lemma set_channels_even:
  "n mod 2 = 0 \<Longrightarrow> set (get_anode_channels n) =
     {0 + 3072 * (n div 2)..<476 + 3072 * (n div 2)} \<union>
     {952 + 3072 * (n div 2)..<1428 + 3072 * (n div 2)} \<union>
     {1904 + 3072 * (n div 2)..<2488 + 3072 * (n div 2)}"
  by (simp add: get_anode_channels_eq cru0_def add_scalar_append set_add_scalar_arange Un_assoc)

lemma set_channels_odd:
  "n mod 2 \<noteq> 0 \<Longrightarrow> set (get_anode_channels n) =
     {476 + 3072 * (n div 2)..<952 + 3072 * (n div 2)} \<union>
     {1428 + 3072 * (n div 2)..<1904 + 3072 * (n div 2)} \<union>
     {2488 + 3072 * (n div 2)..<3072 + 3072 * (n div 2)}"
  by (simp add: get_anode_channels_eq cru1_def add_scalar_append set_add_scalar_arange Un_assoc)

lemma ran3: "ran [(0::int) \<mapsto> a, 1 \<mapsto> b, 2 \<mapsto> c] = {a, b, c}"
  by (simp add: ran_map_upd insert_commute)

text \<open>
  Claim C9. For an odd anode id, the union of the three plane sets of \<open>get_anode_planes\<close>
  is a strict subset of the channels of \<open>get_anode_channels\<close>, and the channels left over
  are exactly 951, 1903 and 3071, each plus \<open>3072 * (anode_id div 2)\<close>; for an even anode
  id the union of the three plane sets is the whole channel set.
\<close>

theorem planes_union_versus_anode_channels:
  "(n mod 2 \<noteq> 0 \<longrightarrow>
      \<Union> (set ` ran (get_anode_planes n)) \<subset> set (get_anode_channels n) \<and>
      set (get_anode_channels n) - \<Union> (set ` ran (get_anode_planes n)) =
        {951 + 3072 * (n div 2), 1903 + 3072 * (n div 2), 3071 + 3072 * (n div 2)}) \<and>
   (n mod 2 = 0 \<longrightarrow>
      \<Union> (set ` ran (get_anode_planes n)) = set (get_anode_channels n))"
proof (cases "n mod 2 = 0")
  case True
  show ?thesis using True unfolding planes_even [OF True] ran3 set_channels_even [OF True]
    by (simp add: set_add_scalar_arange Un_assoc)
next
  case False
  define k where "k = 3072 * (n div 2)"
  have s: "set (get_anode_channels n) - \<Union> (set ` ran (get_anode_planes n)) =
        {951 + 3072 * (n div 2), 1903 + 3072 * (n div 2), 3071 + 3072 * (n div 2)}"
    unfolding planes_odd [OF False] ran3 set_channels_odd [OF False] k_def [symmetric]
    by (simp add: set_add_scalar_arange) (auto simp: set_eq_iff)
  have sub: "\<Union> (set ` ran (get_anode_planes n)) \<subseteq> set (get_anode_channels n)"
    unfolding planes_odd [OF False] ran3 set_channels_odd [OF False] k_def [symmetric]
    by (simp add: set_add_scalar_arange) (auto simp: set_eq_iff)
  from s sub show ?thesis using False by blast
qed

text \<open>
  The theorem at anode 1 (odd) and at anode 0 (even): anode 1 leaves exactly the channels
  951, 1903 and 3071 outside its planes, anode 0 leaves none.
\<close>

theorem planes_union_versus_anode_channels_witness:
  "(1::int) mod 2 \<noteq> 0 \<and> (0::int) mod 2 = 0 \<and>
   \<Union> (set ` ran (get_anode_planes 1)) \<subset> set (get_anode_channels 1) \<and>
   set (get_anode_channels 1) - \<Union> (set ` ran (get_anode_planes 1)) = {951, 1903, 3071} \<and>
   \<Union> (set ` ran (get_anode_planes 0)) = set (get_anode_channels 0)"
  using planes_union_versus_anode_channels [of 1] planes_union_versus_anode_channels [of 0]
  by simp

section \<open>Properties of rebin_sum\<close>

lemma valid_length: "valid a \<Longrightarrow> length (rows a) = fst (shape a)"
  by (simp add: valid_def)

lemma valid_row_length:
  "valid a \<Longrightarrow> i < fst (shape a) \<Longrightarrow> length (rows a ! i) = snd (shape a)"
  by (simp add: valid_def)

lemma length_reshape_groups [simp]: "length (reshape_groups k n xs) = k"
  by (simp add: reshape_groups_def)

lemma nth_reshape_groups:
  "i < k \<Longrightarrow> reshape_groups k n xs ! i = take n (drop (i * n) xs)"
  by (simp add: reshape_groups_def)

lemma take_drop_eq_map_nth:
  "a + n \<le> length xs \<Longrightarrow> take n (drop a xs) = map (\<lambda>k. xs ! k) [a..<a + n]"
  by (rule nth_equalityI) (auto simp: add.commute)

lemma sum_list_take_drop:
  fixes f :: "'b \<Rightarrow> 'a::comm_monoid_add"
  assumes "a + n \<le> length xs"
  shows "sum_list (map f (take n (drop a xs))) = (\<Sum>k = a..<a + n. f (xs ! k))"
  by (simp add: take_drop_eq_map_nth [OF assms] comp_def interv_sum_list_conv_sum_set_nat)

text \<open>Block \<open>i\<close> of \<open>k\<close> blocks of width \<open>n\<close> ends within the first \<open>k * n\<close> items.\<close>

lemma block_le: "i < k \<Longrightarrow> i * n + n \<le> k * (n::nat)"
proof -
  assume "i < k"
  then have "Suc i \<le> k" by simp
  then have "Suc i * n \<le> k * n" by (rule mult_le_mono1)
  then show ?thesis by (simp add: add.commute)
qed

lemma div_mult_le_self: "(m::nat) div t * t \<le> m"
  by simp

lemma block_in_range: "i < m div t \<Longrightarrow> i * t + t \<le> (m::nat)"
  using block_le [of i "m div t" t] div_mult_le_self [of m t] by (rule le_trans)

lemma sum_list_group:
  fixes f :: "'b \<Rightarrow> 'a::comm_monoid_add"
  assumes "i < k" "k * n \<le> length xs"
  shows "sum_list (map f (take n (drop (i * n) (take (k * n) xs)))) =
         (\<Sum>q = i * n..<i * n + n. f (xs ! q))"
proof -
  have le: "i * n + n \<le> k * n" using assms(1) by (rule block_le)
  have "sum_list (map f (take n (drop (i * n) (take (k * n) xs)))) =
        (\<Sum>q = i * n..<i * n + n. f (take (k * n) xs ! q))"
    using le assms(2) by (intro sum_list_take_drop) simp
  also have "\<dots> = (\<Sum>q = i * n..<i * n + n. f (xs ! q))"
    using le by (intro sum.cong) auto
  finally show ?thesis .
qed

text \<open>With positive factors \<open>rebin_sum\<close> raises nothing.\<close>

lemma rebin_sum_pos:
  fixes data :: "'a::comm_monoid_add ndarray"
  assumes "0 < t" "0 < c"
  shows "rebin_sum data (int t) (int c) =
     Inr \<lparr>shape = (fst (shape data) div c, snd (shape data) div t),
          rows = np_sum_axis2
            (map (\<lambda>row. reshape_groups (snd (shape data) div t) t
                          (take (snd (shape data) div t * t) row))
               (np_sum_axis1 (snd (shape data))
                  (reshape_groups (fst (shape data) div c) c
                     (take (fst (shape data) div c * c) (rows data)))))\<rparr>"
  using assms
  by (simp add: rebin_sum_def Let_def split_beta zdiv_int [symmetric] nat_mult_distrib
      del: zdiv_int)

lemma rebin_sum_Inr:
  fixes data :: "'a::comm_monoid_add ndarray"
  assumes t: "0 < t" and c: "0 < c"
  shows "rebin_sum data (int t) (int c) = Inr (projr (rebin_sum data (int t) (int c)))"
  unfolding rebin_sum_pos [OF t c] by simp

lemma rebin_sum_shape:
  fixes data :: "'a::comm_monoid_add ndarray"
  assumes t: "0 < t" and c: "0 < c"
  shows "shape (projr (rebin_sum data (int t) (int c))) =
         (fst (shape data) div c, snd (shape data) div t)"
  unfolding rebin_sum_pos [OF t c] by simp

lemma rebin_sum_valid:
  fixes data :: "'a::comm_monoid_add ndarray"
  assumes t: "0 < t" and c: "0 < c"
  shows "valid (projr (rebin_sum data (int t) (int c)))"
  unfolding rebin_sum_pos [OF t c]
  by (auto simp: valid_def np_sum_axis2_def np_sum_axis1_def)

lemma rebin_sum_cell:
  fixes data :: "'a::comm_monoid_add ndarray"
  assumes v: "valid data" and t: "0 < t" and c: "0 < c"
    and i: "i < fst (shape data) div c" and j: "j < snd (shape data) div t"
  shows "rows (projr (rebin_sum data (int t) (int c))) ! i ! j = spec_block_sum data t c i j"
proof -
  define n m where "n = fst (shape data)" and "m = snd (shape data)"
  define grp where "grp = take c (drop (i * c) (take (n div c * c) (rows data)))"
  define row where "row = map (\<lambda>tk. sum_list (map (\<lambda>r. r ! tk) grp)) [0..<m]"
  have len: "length (rows data) = n" using v by (simp add: valid_def n_def)
  have le_c: "n div c * c \<le> length (rows data)" by (simp add: len)
  have jm: "j * t + t \<le> m" using j unfolding m_def by (rule block_in_range)
  have row_len: "length row = m" by (simp add: row_def)
  have row_nth: "row ! q = (\<Sum>ch = i * c..<i * c + c. rows data ! ch ! q)" if "q < m" for q
    using that i le_c unfolding row_def grp_def n_def
    by (simp add: sum_list_group [where f = "\<lambda>r. r ! q"])
  have "rows (projr (rebin_sum data (int t) (int c))) ! i ! j =
        sum_list (take t (drop (j * t) (take (m div t * t) row)))"
    using i j unfolding rebin_sum_pos [OF t c]
    by (simp add: np_sum_axis2_def np_sum_axis1_def nth_reshape_groups
        n_def m_def row_def grp_def)
  also have "\<dots> = (\<Sum>q = j * t..<j * t + t. row ! q)"
    using sum_list_group [where f = "\<lambda>x. x" and xs = row and i = j and k = "m div t" and n = t]
      j row_len by (simp add: m_def)
  also have "\<dots> = (\<Sum>q = j * t..<j * t + t. \<Sum>ch = i * c..<i * c + c. rows data ! ch ! q)"
    using jm by (intro sum.cong refl row_nth) simp
  also have "\<dots> = spec_block_sum data t c i j"
    unfolding spec_block_sum_def by (rule sum.swap)
  finally show ?thesis .
qed

text \<open>
  Claim C2. For a two-dimensional array \<open>data\<close> of shape \<open>(n_channels, n_ticks)\<close> and
  positive factors \<open>t\<close> (time) and \<open>c\<close> (channel), \<open>rebin_sum\<close> returns an array of shape
  \<open>(n_channels div c, n_ticks div t)\<close> whose cell \<open>(i, j)\<close> is the sum of the input's
  block of channels \<open>i * c ..< i * c + c\<close> and ticks \<open>j * t ..< j * t + t\<close>; every such
  block lies within the first \<open>(n_channels div c) * c\<close> rows and \<open>(n_ticks div t) * t\<close>
  columns. A 4 by 4 array of ones with both factors 2 gives a 2 by 2 array of fours.
\<close>

theorem rebin_sum_block_sums:
  fixes data :: "'a::comm_monoid_add ndarray"
  assumes v: "valid data" and t: "0 < t" and c: "0 < c"
  shows "(\<exists>out. rebin_sum data (int t) (int c) = Inr out \<and>
           shape out = (fst (shape data) div c, snd (shape data) div t) \<and> valid out \<and>
           (\<forall>i < fst (shape data) div c. \<forall>j < snd (shape data) div t.
              rows out ! i ! j = spec_block_sum data t c i j \<and>
              i * c + c \<le> fst (shape data) div c * c \<and>
              j * t + t \<le> snd (shape data) div t * t)) \<and>
         rebin_sum \<lparr>shape = (4, 4), rows = replicate 4 (replicate 4 (1::int))\<rparr> 2 2 =
           Inr \<lparr>shape = (2, 2), rows = [[4, 4], [4, 4]]\<rparr>"
proof (intro exI conjI allI impI)
  show "rebin_sum data (int t) (int c) = Inr (projr (rebin_sum data (int t) (int c)))"
    by (rule rebin_sum_Inr [OF t c])
  show "rebin_sum \<lparr>shape = (4, 4), rows = replicate 4 (replicate 4 (1::int))\<rparr> 2 2 =
           Inr \<lparr>shape = (2, 2), rows = [[4, 4], [4, 4]]\<rparr>"
    by code_simp
qed (simp_all add: rebin_sum_shape t c rebin_sum_valid rebin_sum_cell v block_le
    del: div_mult_self1_is_m div_mult_self_is_m)

text \<open>
  The theorem at a 3 by 5 array with factors \<open>t = 2\<close>, \<open>c = 2\<close>: the last row and the last
  column are dropped, and the output is the 1 by 2 array of the two block sums.
\<close>

theorem rebin_sum_block_sums_witness:
  "valid \<lparr>shape = (3, 5), rows = [[1, 2, 3, 4, 5], [6, 7, 8, 9, 10], [11, 12, 13, 14, 15::int]]\<rparr> \<and>
   (0::nat) < 2 \<and>
   rebin_sum \<lparr>shape = (3, 5), rows = [[1, 2, 3, 4, 5], [6, 7, 8, 9, 10], [11, 12, 13, 14, 15::int]]\<rparr>
     2 2 = Inr \<lparr>shape = (1, 2), rows = [[16, 24]]\<rparr> \<and>
   spec_block_sum
     \<lparr>shape = (3, 5), rows = [[1, 2, 3, 4, 5], [6, 7, 8, 9, 10], [11, 12, 13, 14, 15::int]]\<rparr>
     2 2 0 1 = 24"
proof -
  let ?d = "\<lparr>shape = (3, 5),
             rows = [[1, 2, 3, 4, 5], [6, 7, 8, 9, 10], [11, 12, 13, 14, 15::int]]\<rparr>"
  have v: "valid ?d" by (simp add: valid_def)
  have r: "rebin_sum ?d 2 2 = Inr \<lparr>shape = (1, 2), rows = [[16, 24]]\<rparr>" by code_simp
  have p: "(0::nat) < 2" by simp
  from rebin_sum_block_sums [OF v p p]
  obtain out where o: "rebin_sum ?d (int 2) (int 2) = Inr out"
    and cells: "\<forall>i < fst (shape ?d) div 2. \<forall>j < snd (shape ?d) div 2.
       rows out ! i ! j = spec_block_sum ?d 2 2 i j \<and>
       i * 2 + 2 \<le> fst (shape ?d) div 2 * 2 \<and> j * 2 + 2 \<le> snd (shape ?d) div 2 * 2"
    by blast
  from cells have "rows out ! 0 ! 1 = spec_block_sum ?d 2 2 0 1" by simp
  moreover from o r have "out = \<lparr>shape = (1, 2), rows = [[16, 24]]\<rparr>" by simp
  ultimately have "spec_block_sum ?d 2 2 0 1 = 24" by simp
  with v r show ?thesis by simp
qed

lemma shape_add_arrays [simp]: "shape (add_arrays a b) = shape a"
  by (simp add: add_arrays_def)

lemma valid_add_arrays:
  assumes "valid a" "valid b" "shape a = shape b"
  shows "valid (add_arrays a b)"
proof -
  have "length r = snd (shape a)" if "r \<in> set (map2 (map2 (+)) (rows a) (rows b))" for r
  proof -
    from that obtain i where i: "i < fst (shape a)"
      and r: "r = map2 (+) (rows a ! i) (rows b ! i)"
      using assms by (auto simp: in_set_conv_nth valid_length)
    show ?thesis using assms i by (simp add: r valid_row_length)
  qed
  then show ?thesis using assms by (simp add: valid_def add_arrays_def)
qed

lemma nth_add_arrays:
  assumes "valid a" "valid b" "shape a = shape b" "ch < fst (shape a)" "tick < snd (shape a)"
  shows "rows (add_arrays a b) ! ch ! tick = rows a ! ch ! tick + rows b ! ch ! tick"
  using assms by (simp add: add_arrays_def valid_length valid_row_length)

lemma spec_block_sum_add:
  fixes a :: "'a::comm_monoid_add ndarray"
  assumes "valid a" "valid b" "shape a = shape b"
    and "i * c + c \<le> fst (shape a)" "j * t + t \<le> snd (shape a)"
  shows "spec_block_sum (add_arrays a b) t c i j =
         spec_block_sum a t c i j + spec_block_sum b t c i j"
proof -
  have "spec_block_sum (add_arrays a b) t c i j =
     (\<Sum>ch = i * c..<i * c + c. \<Sum>tick = j * t..<j * t + t.
        rows a ! ch ! tick + rows b ! ch ! tick)"
    unfolding spec_block_sum_def using assms
    by (intro sum.cong refl nth_add_arrays) auto
  then show ?thesis by (simp add: spec_block_sum_def sum.distrib)
qed

text \<open>
  Claim C5. \<open>rebin_sum\<close> is linear: for two arrays \<open>a\<close> and \<open>b\<close> of the same shape and
  positive factors, the three calls return arrays, and the elementwise sum of
  \<open>rebin_sum a\<close> and \<open>rebin_sum b\<close> is \<open>rebin_sum (a + b)\<close>, exactly (in any commutative
  monoid of elements, the integers among them).
\<close>

theorem rebin_sum_linear:
  fixes a :: "'a::comm_monoid_add ndarray"
  assumes va: "valid a" and vb: "valid b" and sh: "shape a = shape b"
    and t: "0 < t" and c: "0 < c"
  shows "\<exists>ra rb rab.
           rebin_sum a (int t) (int c) = Inr ra \<and>
           rebin_sum b (int t) (int c) = Inr rb \<and>
           rebin_sum (add_arrays a b) (int t) (int c) = Inr rab \<and>
           add_arrays ra rb = rab"
proof -
  define ra where "ra = projr (rebin_sum a (int t) (int c))"
  define rb where "rb = projr (rebin_sum b (int t) (int c))"
  define rab where "rab = projr (rebin_sum (add_arrays a b) (int t) (int c))"
  define n m where "n = fst (shape a) div c" and "m = snd (shape a) div t"
  have vab: "valid (add_arrays a b)" using va vb sh by (rule valid_add_arrays)
  have sra: "shape ra = (n, m)" and srb: "shape rb = (n, m)" and srab: "shape rab = (n, m)"
    using sh by (simp_all add: ra_def rb_def rab_def n_def m_def rebin_sum_shape t c)
  have vra: "valid ra" and vrb: "valid rb" and vrab: "valid rab"
    by (simp_all add: ra_def rb_def rab_def rebin_sum_valid t c)
  have vs: "valid (add_arrays ra rb)"
    using vra vrb by (rule valid_add_arrays) (simp add: sra srb)
  have cell: "rows (add_arrays ra rb) ! i ! j = rows rab ! i ! j"
    if i: "i < n" and j: "j < m" for i j
  proof -
    have ic: "i * c + c \<le> fst (shape a)"
      using i unfolding n_def by (rule block_in_range)
    have jt: "j * t + t \<le> snd (shape a)"
      using j unfolding m_def by (rule block_in_range)
    have "rows (add_arrays ra rb) ! i ! j = rows ra ! i ! j + rows rb ! i ! j"
      using vra vrb i j by (intro nth_add_arrays) (simp_all add: sra srb)
    also have "\<dots> = spec_block_sum a t c i j + spec_block_sum b t c i j"
      using i j sh unfolding ra_def rb_def n_def m_def
      by (simp add: rebin_sum_cell va vb t c)
    also have "\<dots> = spec_block_sum (add_arrays a b) t c i j"
      using va vb sh ic jt by (rule spec_block_sum_add [symmetric])
    also have "\<dots> = rows rab ! i ! j"
      using i j unfolding rab_def n_def m_def
      by (simp add: rebin_sum_cell vab t c)
    finally show ?thesis .
  qed
  have rows_eq: "rows (add_arrays ra rb) = rows rab"
  proof (rule nth_equalityI)
    show "length (rows (add_arrays ra rb)) = length (rows rab)"
      using vs vrab by (simp add: valid_length sra srab)
  next
    fix i assume "i < length (rows (add_arrays ra rb))"
    then have i: "i < n" using vs by (simp add: valid_length sra)
    show "rows (add_arrays ra rb) ! i = rows rab ! i"
    proof (rule nth_equalityI)
      show "length (rows (add_arrays ra rb) ! i) = length (rows rab ! i)"
        using vs vrab i by (simp add: valid_row_length sra srab)
    next
      fix j assume "j < length (rows (add_arrays ra rb) ! i)"
      then have "j < m" using vs i by (simp add: valid_row_length sra)
      with i show "rows (add_arrays ra rb) ! i ! j = rows rab ! i ! j" by (rule cell)
    qed
  qed
  have "add_arrays ra rb = rab"
    by (rule ndarray.equality) (simp_all add: rows_eq sra srab)
  moreover have "rebin_sum a (int t) (int c) = Inr ra"
    unfolding ra_def by (rule rebin_sum_Inr [OF t c])
  moreover have "rebin_sum b (int t) (int c) = Inr rb"
    unfolding rb_def by (rule rebin_sum_Inr [OF t c])
  moreover have "rebin_sum (add_arrays a b) (int t) (int c) = Inr rab"
    unfolding rab_def by (rule rebin_sum_Inr [OF t c])
  ultimately show ?thesis by blast
qed

text \<open>
  The theorem at two 2 by 2 integer arrays, with \<open>t = 2\<close> and \<open>c = 1\<close>: the row sums
  \<open>[[3], [7]]\<close> and \<open>[[30], [70]]\<close> add up to \<open>rebin_sum\<close> of the sum of the inputs.
\<close>

theorem rebin_sum_linear_witness:
  "valid \<lparr>shape = (2, 2), rows = [[1, 2], [3, 4::int]]\<rparr> \<and>
   valid \<lparr>shape = (2, 2), rows = [[10, 20], [30, 40::int]]\<rparr> \<and>
   rebin_sum \<lparr>shape = (2, 2), rows = [[1, 2], [3, 4::int]]\<rparr> 2 1 =
     Inr \<lparr>shape = (2, 1), rows = [[3], [7]]\<rparr> \<and>
   rebin_sum \<lparr>shape = (2, 2), rows = [[10, 20], [30, 40::int]]\<rparr> 2 1 =
     Inr \<lparr>shape = (2, 1), rows = [[30], [70]]\<rparr> \<and>
   rebin_sum (add_arrays \<lparr>shape = (2, 2), rows = [[1, 2], [3, 4::int]]\<rparr>
                \<lparr>shape = (2, 2), rows = [[10, 20], [30, 40::int]]\<rparr>) 2 1 =
     Inr (add_arrays \<lparr>shape = (2, 1), rows = [[3], [7]]\<rparr>
            \<lparr>shape = (2, 1), rows = [[30], [70]]\<rparr>)"
proof -
  let ?a = "\<lparr>shape = (2, 2), rows = [[1, 2], [3, 4::int]]\<rparr>"
  let ?b = "\<lparr>shape = (2, 2), rows = [[10, 20], [30, 40::int]]\<rparr>"
  have va: "valid ?a" and vb: "valid ?b" by (simp_all add: valid_def)
  have sh: "shape ?a = shape ?b" by simp
  have ra: "rebin_sum ?a 2 1 = Inr \<lparr>shape = (2, 1), rows = [[3], [7]]\<rparr>" by code_simp
  have rb: "rebin_sum ?b 2 1 = Inr \<lparr>shape = (2, 1), rows = [[30], [70]]\<rparr>" by code_simp
  from rebin_sum_linear [OF va vb sh, of 2 1] ra rb va vb show ?thesis by auto
qed

section \<open>Properties of rebin_track_first_second\<close>


lemma bind_err_Inr [simp]: "bind_err (Inr x) f = f x"
  by (simp add: bind_err_def)

lemma bind_err_Inl [simp]: "bind_err (Inl e) f = Inl e"
  by (simp add: bind_err_def)

lemma for_each_rule:
  assumes "I 0 s0"
    and "\<And>k s. k < length xs \<Longrightarrow> I k s \<Longrightarrow> \<exists>s'. body (xs ! k) s = Inr s' \<and> I (Suc k) s'"
  shows "\<exists>s'. for_each xs body s0 = Inr s' \<and> I (length xs) s'"
  using assms
proof (induction xs arbitrary: I s0)
  case Nil
  then show ?case by simp
next
  case (Cons x xs)
  from Cons.prems(2) [of 0 s0] Cons.prems(1)
  obtain s1 where s1: "body x s0 = Inr s1" "I (Suc 0) s1" by auto
  have "\<exists>s'. for_each xs body s1 = Inr s' \<and> I (Suc (length xs)) s'"
  proof (rule Cons.IH [where I = "\<lambda>k. I (Suc k)"])
    show "I (Suc 0) s1" by (rule s1)
  next
    fix k s assume "k < length xs" "I (Suc k) s"
    then show "\<exists>s'. body (xs ! k) s = Inr s' \<and> I (Suc (Suc k)) s'"
      using Cons.prems(2) [of "Suc k" s] by simp
  qed
  with s1 show ?case by simp
qed

lemma for_each_append:
  assumes "\<And>x s. x \<in> set xs \<Longrightarrow> body x s = Inr (s @ g x)"
  shows "for_each xs body s = Inr (s @ concat (map g xs))"
  using assms by (induction xs arbitrary: s) simp_all

lemma length_sort_charge_desc [simp]: "length (sort_charge_desc xs) = length xs"
  by (simp add: sort_charge_desc_def)

lemma sorted_sort_charge_desc: "sorted_wrt (\<lambda>p q. fst q \<le> fst p) (sort_charge_desc xs)"
proof -
  have "sorted (map fst (sort_key fst (rev xs)))" by (rule sorted_sort_key)
  then have "sorted_wrt (\<lambda>p q. fst p \<le> fst q) (sort_key fst (rev xs))"
    by (simp add: sorted_wrt_map)
  then show ?thesis by (simp add: sort_charge_desc_def sorted_wrt_rev)
qed

lemma stable_sort_charge_desc:
  "filter (\<lambda>p. fst p = k) (sort_charge_desc xs) = filter (\<lambda>p. fst p = k) xs"
  by (simp add: sort_charge_desc_def rev_filter [symmetric] sort_key_stable)

lemma ranked_desc_sort: "ranked_desc xs (sort_charge_desc xs)"
  by (simp add: ranked_desc_def sorted_sort_charge_desc stable_sort_charge_desc)



lemma filled_zeros: "filled F n m 0 0 (np_zeros (n, m))"
  by (simp add: filled_def np_zeros_def valid_def)

lemma valid_update:
  assumes "valid a" "i < fst (shape a)"
  shows "valid (a\<lparr>rows := (rows a)[i := (rows a ! i)[j := v]]\<rparr>)"
  using assms by (auto simp: valid_def dest!: set_update_subset_insert [THEN subsetD])

lemma filled_put:
  assumes f: "filled F n m k l a" and k: "k < n" and l: "l < m"
  shows "\<exists>a'. put a k l (F k l) = Inr a' \<and> filled F n m k (Suc l) a'"
proof -
  let ?a' = "a\<lparr>rows := (rows a)[k := (rows a ! k)[l := F k l]]\<rparr>"
  from f have sh: "shape a = (n, m)" and v: "valid a"
    and cells: "\<And>i j. i < n \<Longrightarrow> j < m \<Longrightarrow>
        rows a ! i ! j = (if i < k \<or> (i = k \<and> j < l) then F i j else 0)"
    by (simp_all add: filled_def)
  have p: "put a k l (F k l) = Inr ?a'" using k l by (simp add: put_def sh)
  have v': "valid ?a'" by (rule valid_update [OF v]) (simp add: sh k)
  have len: "length (rows a) = n" using v by (simp add: valid_length sh)
  have rl: "length (rows a ! k) = m" using v k by (simp add: valid_row_length sh)
  have "rows ?a' ! i ! j = (if i < k \<or> (i = k \<and> j < Suc l) then F i j else 0)"
    if "i < n" "j < m" for i j
    using that cells [OF that] k l len rl
    by (auto simp: nth_list_update less_Suc_eq)
  with p v' sh show ?thesis by (auto simp: filled_def)
qed

lemma filled_skip:
  assumes "filled F n m k l a" "F k l = 0"
  shows "filled F n m k (Suc l) a"
  using assms by (auto simp: filled_def less_Suc_eq)

lemma filled_row_done:
  assumes "filled F n m k m a"
  shows "filled F n m (Suc k) 0 a"
  using assms by (auto simp: filled_def less_Suc_eq)

lemma filled_final:
  assumes "filled F n m n l a" "i < n" "j < m"
  shows "rows a ! i ! j = F i j"
  using assms by (simp add: filled_def)



lemma collect_cell_ok:
  assumes "shape data_1st = (n, m)" "shape data_2nd = (n, m)"
    "shape charge_1st = (n, m)" "shape charge_2nd = (n, m)" "ch < n" "tick < m"
  shows "collect_cell data_1st data_2nd charge_1st charge_2nd ch tick acc =
         Inr (acc @ spec_cell_pairs data_1st data_2nd charge_1st charge_2nd ch tick)"
  using assms by (simp add: collect_cell_def at_def spec_cell_pairs_def)

lemma collect_block_ok:
  assumes sh: "shape data_1st = (n, m)" "shape data_2nd = (n, m)"
    "shape charge_1st = (n, m)" "shape charge_2nd = (n, m)"
    and i: "i < n div c" and j: "j < m div t"
  shows "for_each [i * c..<min (i * c + c) n] (\<lambda>ch.
           for_each [j * t..<min (j * t + t) m] (\<lambda>tick.
             collect_cell data_1st data_2nd charge_1st charge_2nd ch tick)) [] =
         Inr (spec_block_pairs data_1st data_2nd charge_1st charge_2nd t c i j)"
proof -
  have ic: "i * c + c \<le> n" using i by (rule block_in_range)
  have jt: "j * t + t \<le> m" using j by (rule block_in_range)
  have inner: "for_each [j * t..<j * t + t] (\<lambda>tick.
             collect_cell data_1st data_2nd charge_1st charge_2nd ch tick) acc =
         Inr (acc @ concat (map (\<lambda>tick.
             spec_cell_pairs data_1st data_2nd charge_1st charge_2nd ch tick) [j * t..<j * t + t]))"
    if "ch \<in> set [i * c..<i * c + c]" for ch acc
  proof (rule for_each_append)
    fix x s assume "x \<in> set [j * t..<j * t + t]"
    then have "x < m" using jt by simp
    moreover have "ch < n" using that ic by simp
    ultimately show "collect_cell data_1st data_2nd charge_1st charge_2nd ch x s =
         Inr (s @ spec_cell_pairs data_1st data_2nd charge_1st charge_2nd ch x)"
      using sh by (intro collect_cell_ok)
  qed
  have "for_each [i * c..<i * c + c] (\<lambda>ch.
           for_each [j * t..<j * t + t] (\<lambda>tick.
             collect_cell data_1st data_2nd charge_1st charge_2nd ch tick)) [] =
        Inr ([] @ concat (map (\<lambda>ch. concat (map (\<lambda>tick.
             spec_cell_pairs data_1st data_2nd charge_1st charge_2nd ch tick) [j * t..<j * t + t]))
           [i * c..<i * c + c]))"
    by (rule for_each_append) (rule inner)
  moreover have "min (i * c + c) n = i * c + c" "min (j * t + t) m = j * t + t"
    using ic jt by simp_all
  ultimately show ?thesis by (simp add: spec_block_pairs_def)
qed

lemma rebin_block_ok:
  fixes data_1st :: "'l::zero ndarray" and charge_1st :: "'c::{linorder,zero} ndarray"
  assumes sh: "shape data_1st = (n, m)" "shape data_2nd = (n, m)"
    "shape charge_1st = (n, m)" "shape charge_2nd = (n, m)"
    and i: "i < n div c" and j: "j < m div t"
    and f1: "filled (block_label data_1st data_2nd charge_1st charge_2nd t c 0) (n div c) (m div t) i j o1"
    and f2: "filled (block_label data_1st data_2nd charge_1st charge_2nd t c 1) (n div c) (m div t) i j o2"
  shows "\<exists>s'. rebin_block data_1st data_2nd charge_1st charge_2nd t c n m i j (o1, o2) = Inr s' \<and>
     filled (block_label data_1st data_2nd charge_1st charge_2nd t c 0) (n div c) (m div t) i (Suc j) (fst s') \<and>
     filled (block_label data_1st data_2nd charge_1st charge_2nd t c 1) (n div c) (m div t) i (Suc j) (snd s')"
proof -
  let ?F = "block_label data_1st data_2nd charge_1st charge_2nd t c"
  define pairs where "pairs = spec_block_pairs data_1st data_2nd charge_1st charge_2nd t c i j"
  define ranked where "ranked = sort_charge_desc pairs"
  have F0: "?F 0 i j = label_at_rank ranked 0" and F1: "?F 1 i j = label_at_rank ranked 1"
    by (simp_all add: block_label_def ranked_def pairs_def)
  have len: "length ranked = length pairs" by (simp add: ranked_def)
  have rb: "rebin_block data_1st data_2nd charge_1st charge_2nd t c n m i j (o1, o2) =
     (if length pairs > 0
      then bind_err (put o1 i j (snd (ranked ! 0))) (\<lambda>out_1st.
             if length pairs > 1
             then bind_err (put o2 i j (snd (ranked ! 1))) (\<lambda>out_2nd. Inr (out_1st, out_2nd))
             else Inr (out_1st, o2))
      else Inr (o1, o2))"
    unfolding rebin_block_def Let_def split_conv collect_block_ok [OF sh i j]
      ranked_def pairs_def
    by simp
  show ?thesis
  proof (cases "length pairs > 0")
    case False
    then have "?F 0 i j = 0" "?F 1 i j = 0" by (simp_all add: F0 F1 label_at_rank_def len del: One_nat_def)
    then show ?thesis using False f1 f2 by (simp add: rb filled_skip del: One_nat_def)
  next
    case True
    then have v0: "snd (ranked ! 0) = ?F 0 i j" by (simp add: F0 label_at_rank_def len del: One_nat_def)
    from filled_put [OF f1 i j] obtain o1' where
      p1: "put o1 i j (?F 0 i j) = Inr o1'" and f1': "filled (?F 0) (n div c) (m div t) i (Suc j) o1'"
      by blast
    show ?thesis
    proof (cases "length pairs > 1")
      case False
      then have "?F 1 i j = 0" by (simp add: F1 label_at_rank_def len del: One_nat_def)
      then show ?thesis using True False f2 p1 f1' by (simp add: rb v0 filled_skip del: One_nat_def)
    next
      case gt: True
      then have v1: "snd (ranked ! 1) = ?F 1 i j" by (simp add: F1 label_at_rank_def len del: One_nat_def)
      from filled_put [OF f2 i j] obtain o2' where
        p2: "put o2 i j (?F 1 i j) = Inr o2'" and f2': "filled (?F 1) (n div c) (m div t) i (Suc j) o2'"
        by blast
      show ?thesis using True gt p1 p2 f1' f2' by (simp add: rb v0 v1 del: One_nat_def)
    qed
  qed
qed



lemma track_unfold:
  fixes data_1st :: "'l::zero ndarray" and charge_1st :: "'c::{linorder,zero} ndarray"
  assumes sh: "shape data_1st = (n, m)" and t: "0 < t" and c: "0 < c"
  shows "rebin_track_first_second data_1st data_2nd charge_1st charge_2nd (int t) (int c) =
     for_each [0..<n div c] (\<lambda>i_ch.
       for_each [0..<m div t] (\<lambda>i_tick.
         rebin_block data_1st data_2nd charge_1st charge_2nd t c n m i_ch i_tick))
       (np_zeros (n div c, m div t), np_zeros (n div c, m div t))"
proof -
  have "int n div int c = int (n div c)" "int m div int t = int (m div t)"
    by (simp_all add: zdiv_int)
  then show ?thesis using t c
    unfolding rebin_track_first_second_def sh split_conv Let_def
    by (simp del: zdiv_int of_nat_div)
qed

lemma track_ok:
  fixes data_1st :: "'l::zero ndarray" and charge_1st :: "'c::{linorder,zero} ndarray"
  assumes sh: "shape data_1st = (n, m)" "shape data_2nd = (n, m)"
    "shape charge_1st = (n, m)" "shape charge_2nd = (n, m)"
    and t: "0 < t" and c: "0 < c"
  shows "\<exists>s'. rebin_track_first_second data_1st data_2nd charge_1st charge_2nd (int t) (int c) = Inr s' \<and>
     filled (block_label data_1st data_2nd charge_1st charge_2nd t c 0) (n div c) (m div t) (n div c) 0 (fst s') \<and>
     filled (block_label data_1st data_2nd charge_1st charge_2nd t c 1) (n div c) (m div t) (n div c) 0 (snd s')"
proof -
  let ?F = "block_label data_1st data_2nd charge_1st charge_2nd t c"
  let ?N = "n div c" and ?M = "m div t"
  let ?I = "\<lambda>k l s. filled (?F 0) ?N ?M k l (fst s) \<and> filled (?F 1) ?N ?M k l (snd s)"
  let ?inner = "\<lambda>i_ch. for_each [0..<?M] (\<lambda>i_tick.
         rebin_block data_1st data_2nd charge_1st charge_2nd t c n m i_ch i_tick)"
  have row: "\<exists>s'. ?inner ([0..<?N] ! k) s = Inr s' \<and> ?I (Suc k) 0 s'"
    if k: "k < length [0..<?N]" and inv: "?I k 0 s" for k s
  proof -
    from k have kN: "k < ?N" by simp
    have "\<exists>s'. for_each [0..<?M] (\<lambda>i_tick.
         rebin_block data_1st data_2nd charge_1st charge_2nd t c n m k i_tick) s = Inr s' \<and>
         ?I k (length [0..<?M]) s'"
    proof (rule for_each_rule [where I = "\<lambda>l. ?I k l"])
      show "?I k 0 s" by (rule inv)
    next
      fix l s0 assume l: "l < length [0..<?M]" and i0: "?I k l s0"
      then have lM: "l < ?M" by simp
      from i0 have f1: "filled (?F 0) ?N ?M k l (fst s0)" and f2: "filled (?F 1) ?N ?M k l (snd s0)"
        by simp_all
      from rebin_block_ok [OF sh kN lM f1 f2]
      show "\<exists>s'. rebin_block data_1st data_2nd charge_1st charge_2nd t c n m k ([0..<?M] ! l) s0 = Inr s' \<and>
              ?I k (Suc l) s'"
        using lM by simp
    qed
    then obtain s' where "?inner k s = Inr s'" "?I k ?M s'" by auto
    then show ?thesis using kN by (auto intro: filled_row_done)
  qed
  have "\<exists>s'. for_each [0..<?N] ?inner (np_zeros (?N, ?M), np_zeros (?N, ?M)) = Inr s' \<and>
          ?I (length [0..<?N]) 0 s'"
  proof (rule for_each_rule [where I = "\<lambda>k. ?I k 0"])
    show "?I 0 0 (np_zeros (?N, ?M), np_zeros (?N, ?M))" by (simp add: filled_zeros)
  qed (rule row)
  then show ?thesis unfolding track_unfold [OF sh(1) t c] by simp
qed



lemma spec_block_pairs_no_charge:
  assumes "\<forall>ch \<in> {i * c..<i * c + c}. \<forall>tick \<in> {j * t..<j * t + t}.
             rows charge_1st ! ch ! tick = 0 \<and> rows charge_2nd ! ch ! tick = 0"
  shows "spec_block_pairs data_1st data_2nd charge_1st charge_2nd t c i j = []"
  using assms by (simp add: spec_block_pairs_def spec_cell_pairs_def)

lemma sort_charge_desc_single [simp]: "sort_charge_desc [p] = [p]"
  by (simp add: sort_charge_desc_def)

lemma sort_charge_desc_Nil [simp]: "sort_charge_desc [] = []"
  by (simp add: sort_charge_desc_def)

text \<open>
  Claim C1. For four well-formed arrays of one shape and positive factors,
  \<open>rebin_track_first_second\<close> returns two arrays of shape
  \<open>(n_channels div c, n_ticks div t)\<close>. For each output block, let the pairs be every
  \<open>(charge, label)\<close> pair with a charge above 0 from the 1st and 2nd arrays over the
  block's cells, and let \<open>ranked\<close> be these pairs sorted by charge, descending (equal
  charges in collection order). The block's 1st output is the label of the pair of rank
  0 (0 if there is none) and its 2nd output is the label of the pair of rank 1 (0 if
  there are fewer than two pairs). In particular a block whose charges are all 0 gives
  \<open>(0, 0)\<close>, and a block with exactly one positive-charge pair gives that pair's label
  and 0.
\<close>

theorem rebin_track_first_second_top_two:
  fixes data_1st :: "'l::zero ndarray" and charge_1st :: "'c::{linorder,zero} ndarray"
  assumes v: "valid data_1st" "valid data_2nd" "valid charge_1st" "valid charge_2nd"
    and sh: "shape data_2nd = shape data_1st" "shape charge_1st = shape data_1st"
      "shape charge_2nd = shape data_1st"
    and t: "0 < t" and c: "0 < c"
  shows "\<exists>out_1st out_2nd.
     rebin_track_first_second data_1st data_2nd charge_1st charge_2nd (int t) (int c) =
       Inr (out_1st, out_2nd) \<and>
     shape out_1st = (fst (shape data_1st) div c, snd (shape data_1st) div t) \<and>
     shape out_2nd = (fst (shape data_1st) div c, snd (shape data_1st) div t) \<and>
     valid out_1st \<and> valid out_2nd \<and>
     (\<forall>i < fst (shape data_1st) div c. \<forall>j < snd (shape data_1st) div t.
        (\<exists>ranked.
           ranked_desc (spec_block_pairs data_1st data_2nd charge_1st charge_2nd t c i j) ranked \<and>
           rows out_1st ! i ! j = label_at_rank ranked 0 \<and>
           rows out_2nd ! i ! j = label_at_rank ranked 1) \<and>
        ((\<forall>ch \<in> {i * c..<i * c + c}. \<forall>tick \<in> {j * t..<j * t + t}.
            rows charge_1st ! ch ! tick = 0 \<and> rows charge_2nd ! ch ! tick = 0) \<longrightarrow>
         rows out_1st ! i ! j = 0 \<and> rows out_2nd ! i ! j = 0) \<and>
        (\<forall>p. spec_block_pairs data_1st data_2nd charge_1st charge_2nd t c i j = [p] \<longrightarrow>
           rows out_1st ! i ! j = snd p \<and> rows out_2nd ! i ! j = 0))"
proof -
  define n m where "n = fst (shape data_1st)" and "m = snd (shape data_1st)"
  let ?F = "block_label data_1st data_2nd charge_1st charge_2nd t c"
  let ?P = "spec_block_pairs data_1st data_2nd charge_1st charge_2nd t c"
  have s: "shape data_1st = (n, m)" "shape data_2nd = (n, m)"
    "shape charge_1st = (n, m)" "shape charge_2nd = (n, m)"
    by (simp_all add: sh n_def m_def)
  from track_ok [OF s t c] obtain out_1st out_2nd where
    r: "rebin_track_first_second data_1st data_2nd charge_1st charge_2nd (int t) (int c) =
          Inr (out_1st, out_2nd)"
    and f1: "filled (?F 0) (n div c) (m div t) (n div c) 0 out_1st"
    and f2: "filled (?F 1) (n div c) (m div t) (n div c) 0 out_2nd"
    by force
  have c1: "rows out_1st ! i ! j = label_at_rank (sort_charge_desc (?P i j)) 0"
    and c2: "rows out_2nd ! i ! j = label_at_rank (sort_charge_desc (?P i j)) 1"
    if "i < n div c" "j < m div t" for i j
    using filled_final [OF f1 that] filled_final [OF f2 that] by (simp_all add: block_label_def)
  have "(\<exists>ranked. ranked_desc (?P i j) ranked \<and>
           rows out_1st ! i ! j = label_at_rank ranked 0 \<and>
           rows out_2nd ! i ! j = label_at_rank ranked 1) \<and>
        ((\<forall>ch \<in> {i * c..<i * c + c}. \<forall>tick \<in> {j * t..<j * t + t}.
            rows charge_1st ! ch ! tick = 0 \<and> rows charge_2nd ! ch ! tick = 0) \<longrightarrow>
         rows out_1st ! i ! j = 0 \<and> rows out_2nd ! i ! j = 0) \<and>
        (\<forall>p. ?P i j = [p] \<longrightarrow> rows out_1st ! i ! j = snd p \<and> rows out_2nd ! i ! j = 0)"
    if ij: "i < n div c" "j < m div t" for i j
  proof (intro conjI impI allI)
    show "\<exists>ranked. ranked_desc (?P i j) ranked \<and>
           rows out_1st ! i ! j = label_at_rank ranked 0 \<and>
           rows out_2nd ! i ! j = label_at_rank ranked 1"
      using c1 [OF ij] c2 [OF ij] ranked_desc_sort [of "?P i j"] by blast
  next
    assume z: "\<forall>ch \<in> {i * c..<i * c + c}. \<forall>tick \<in> {j * t..<j * t + t}.
            rows charge_1st ! ch ! tick = 0 \<and> rows charge_2nd ! ch ! tick = 0"
    have "?P i j = []" using z by (rule spec_block_pairs_no_charge)
    then show "rows out_1st ! i ! j = 0" "rows out_2nd ! i ! j = 0"
      using c1 [OF ij] c2 [OF ij] by (simp_all add: label_at_rank_def)
  next
    fix p assume "?P i j = [p]"
    then show "rows out_1st ! i ! j = snd p" "rows out_2nd ! i ! j = 0"
      using c1 [OF ij] c2 [OF ij] by (simp_all add: label_at_rank_def)
  qed
  moreover have "shape out_1st = (n div c, m div t)" "shape out_2nd = (n div c, m div t)"
    "valid out_1st" "valid out_2nd"
    using f1 f2 by (simp_all add: filled_def)
  ultimately show ?thesis using r unfolding n_def m_def by blast
qed

text \<open>
  The theorem at a 2 by 6 input with \<open>t = 2\<close>, \<open>c = 2\<close>, that is three blocks: block 0
  holds the pairs \<open>(5, 7)\<close>, \<open>(6, 2)\<close>, \<open>(3, 9)\<close>, ranked \<open>(6, 2)\<close>, \<open>(5, 7)\<close>, \<open>(3, 9)\<close>;
  block 1 has no charge at all, hence no pair; block 2 holds the single pair \<open>(4, 8)\<close>.
\<close>

theorem rebin_track_first_second_top_two_witness:
  "valid \<lparr>shape = (2, 6), rows = [[7, 0, 0, 0, 0, 0], [0, 9, 0, 0, 0, 8::int]]\<rparr> \<and>
   valid \<lparr>shape = (2, 6), rows = [[2, 0, 0, 0, 0, 0], [0, 0, 0, 0, 0, 0::int]]\<rparr> \<and>
   valid \<lparr>shape = (2, 6), rows = [[5, 0, 0, 0, 0, 0], [0, 3, 0, 0, 0, 4::int]]\<rparr> \<and>
   valid \<lparr>shape = (2, 6), rows = [[6, 0, 0, 0, 0, 0], [0, 0, 0, 0, 0, 0::int]]\<rparr> \<and>
   rebin_track_first_second
     \<lparr>shape = (2, 6), rows = [[7, 0, 0, 0, 0, 0], [0, 9, 0, 0, 0, 8::int]]\<rparr>
     \<lparr>shape = (2, 6), rows = [[2, 0, 0, 0, 0, 0], [0, 0, 0, 0, 0, 0::int]]\<rparr>
     \<lparr>shape = (2, 6), rows = [[5, 0, 0, 0, 0, 0], [0, 3, 0, 0, 0, 4::int]]\<rparr>
     \<lparr>shape = (2, 6), rows = [[6, 0, 0, 0, 0, 0], [0, 0, 0, 0, 0, 0::int]]\<rparr> 2 2 =
     Inr (\<lparr>shape = (1, 3), rows = [[2, 0, 8]]\<rparr>, \<lparr>shape = (1, 3), rows = [[7, 0, 0]]\<rparr>) \<and>
   spec_block_pairs
     \<lparr>shape = (2, 6), rows = [[7, 0, 0, 0, 0, 0], [0, 9, 0, 0, 0, 8::int]]\<rparr>
     \<lparr>shape = (2, 6), rows = [[2, 0, 0, 0, 0, 0], [0, 0, 0, 0, 0, 0::int]]\<rparr>
     \<lparr>shape = (2, 6), rows = [[5, 0, 0, 0, 0, 0], [0, 3, 0, 0, 0, 4::int]]\<rparr>
     \<lparr>shape = (2, 6), rows = [[6, 0, 0, 0, 0, 0], [0, 0, 0, 0, 0, 0::int]]\<rparr> 2 2 0 1 =
     [] \<and>
   spec_block_pairs
     \<lparr>shape = (2, 6), rows = [[7, 0, 0, 0, 0, 0], [0, 9, 0, 0, 0, 8::int]]\<rparr>
     \<lparr>shape = (2, 6), rows = [[2, 0, 0, 0, 0, 0], [0, 0, 0, 0, 0, 0::int]]\<rparr>
     \<lparr>shape = (2, 6), rows = [[5, 0, 0, 0, 0, 0], [0, 3, 0, 0, 0, 4::int]]\<rparr>
     \<lparr>shape = (2, 6), rows = [[6, 0, 0, 0, 0, 0], [0, 0, 0, 0, 0, 0::int]]\<rparr> 2 2 0 2 =
     [(4, 8)] \<and>
   (\<exists>ranked. ranked_desc [(5::int, 7), (6, 2), (3, 9::int)] ranked \<and>
      label_at_rank ranked 0 = (2::int) \<and> label_at_rank ranked 1 = 7)"
proof -
  let ?d1 = "\<lparr>shape = (2, 6), rows = [[7, 0, 0, 0, 0, 0], [0, 9, 0, 0, 0, 8::int]]\<rparr>"
  let ?d2 = "\<lparr>shape = (2, 6), rows = [[2, 0, 0, 0, 0, 0], [0, 0, 0, 0, 0, 0::int]]\<rparr>"
  let ?c1 = "\<lparr>shape = (2, 6), rows = [[5, 0, 0, 0, 0, 0], [0, 3, 0, 0, 0, 4::int]]\<rparr>"
  let ?c2 = "\<lparr>shape = (2, 6), rows = [[6, 0, 0, 0, 0, 0], [0, 0, 0, 0, 0, 0::int]]\<rparr>"
  have v: "valid ?d1" "valid ?d2" "valid ?c1" "valid ?c2" by (simp_all add: valid_def)
  have sh: "shape ?d2 = shape ?d1" "shape ?c1 = shape ?d1" "shape ?c2 = shape ?d1"
    by simp_all
  have p: "(0::nat) < 2" by simp
  have r: "rebin_track_first_second ?d1 ?d2 ?c1 ?c2 2 2 =
     Inr (\<lparr>shape = (1, 3), rows = [[2, 0, 8]]\<rparr>, \<lparr>shape = (1, 3), rows = [[7, 0, 0]]\<rparr>)"
    by code_simp
  have z: "\<forall>ch \<in> {0 * 2..<0 * 2 + 2}. \<forall>tick \<in> {1 * 2..<1 * 2 + 2}.
      rows ?c1 ! ch ! tick = 0 \<and> rows ?c2 ! ch ! tick = 0"
    by code_simp
  have b0: "spec_block_pairs ?d1 ?d2 ?c1 ?c2 2 2 0 0 = [(5, 7), (6, 2), (3, 9)]"
    by code_simp
  have b2: "spec_block_pairs ?d1 ?d2 ?c1 ?c2 2 2 0 2 = [(4, 8)]"
    by code_simp
  from rebin_track_first_second_top_two [OF v sh p p]
  obtain out_1st out_2nd where
    o: "rebin_track_first_second ?d1 ?d2 ?c1 ?c2 (int 2) (int 2) = Inr (out_1st, out_2nd)"
    and cells: "\<forall>i < fst (shape ?d1) div 2. \<forall>j < snd (shape ?d1) div 2.
        (\<exists>ranked.
           ranked_desc (spec_block_pairs ?d1 ?d2 ?c1 ?c2 2 2 i j) ranked \<and>
           rows out_1st ! i ! j = label_at_rank ranked 0 \<and>
           rows out_2nd ! i ! j = label_at_rank ranked 1) \<and>
        ((\<forall>ch \<in> {i * 2..<i * 2 + 2}. \<forall>tick \<in> {j * 2..<j * 2 + 2}.
            rows ?c1 ! ch ! tick = 0 \<and> rows ?c2 ! ch ! tick = 0) \<longrightarrow>
         rows out_1st ! i ! j = 0 \<and> rows out_2nd ! i ! j = 0) \<and>
        (\<forall>p. spec_block_pairs ?d1 ?d2 ?c1 ?c2 2 2 i j = [p] \<longrightarrow>
           rows out_1st ! i ! j = snd p \<and> rows out_2nd ! i ! j = 0)"
    by blast
  have i0: "(0::nat) < fst (shape ?d1) div 2" and j0: "(0::nat) < snd (shape ?d1) div 2"
    and j1: "(1::nat) < snd (shape ?d1) div 2" and j2: "(2::nat) < snd (shape ?d1) div 2"
    by simp_all
  from cells [rule_format, OF i0 j1, THEN conjunct2, THEN conjunct1, THEN mp, OF z]
  have c1: "rows out_1st ! 0 ! 1 = 0" "rows out_2nd ! 0 ! 1 = 0" by simp_all
  from cells [rule_format, OF i0 j2, THEN conjunct2, THEN conjunct2, THEN spec, THEN mp, OF b2]
  have c2: "rows out_1st ! 0 ! 2 = 8" "rows out_2nd ! 0 ! 2 = 0" by simp_all
  from o r have out: "out_1st = \<lparr>shape = (1, 3), rows = [[2, 0, 8]]\<rparr>"
    "out_2nd = \<lparr>shape = (1, 3), rows = [[7, 0, 0]]\<rparr>" by simp_all
  from cells [rule_format, OF i0 j0, THEN conjunct1] b0 out
  have "\<exists>ranked. ranked_desc [(5::int, 7), (6, 2), (3, 9::int)] ranked \<and>
      label_at_rank ranked 0 = (2::int) \<and> label_at_rank ranked 1 = 7"
    by auto
  moreover have "spec_block_pairs ?d1 ?d2 ?c1 ?c2 2 2 0 1 = []"
    using z by (rule spec_block_pairs_no_charge)
  ultimately show ?thesis using v r b2 c1 c2 by blast
qed

section \<open>Properties of the pipeline\<close>

lemma planes_lookup:
  assumes "plane_id < 3"
  shows "\<exists>chs. get_anode_planes a (int plane_id) = Some chs"
proof -
  have "int plane_id = 0 \<or> int plane_id = 1 \<or> int plane_id = 2" using assms by auto
  then show ?thesis
    by (cases "a mod 2 = 0") (auto simp: planes_even planes_odd)
qed

lemma process_plane_nothing:
  assumes "nothing_to_rebin frames_rec frames_tru" "plane_id < 3"
  shows "process_plane frames_rec frames_tru rt rc anode_id plane_id acc = Inr acc"
proof -
  from planes_lookup [OF assms(2)] obtain chs where
    "get_anode_planes (int anode_id) (int plane_id) = Some chs" by blast
  then show ?thesis using assms(1)
    by (simp add: process_plane_def Let_def nothing_to_rebin_def rebin_gauss_def
        rebin_label_kind_def rebin_charge_def)
qed

lemma for_each_unchanged:
  assumes "\<And>x s. x \<in> set xs \<Longrightarrow> body x s = Inr s"
  shows "for_each xs body s = Inr s"
  using assms by (induction xs) simp_all

lemma loops_nothing:
  assumes "nothing_to_rebin frames_rec frames_tru"
  shows "for_each [0..<8] (\<lambda>anode_id.
           for_each [0..<3] (\<lambda>plane_id.
             process_plane frames_rec frames_tru rt rc anode_id plane_id)) acc = Inr acc"
  by (intro for_each_unchanged process_plane_nothing assms) simp

lemma process_nothing:
  assumes "nothing_to_rebin frames_rec frames_tru"
    and "snd (verify_dimensions (dict_merge frames_rec frames_tru))"
    and "dict_merge frames_rec frames_tru \<noteq> []"
  shows "process rt rc frames_rec frames_tru =
     Inr \<lparr>printed = [Loaded_rec (map fst frames_rec), Loaded_tru (map fst frames_tru)],
          returned = True, datasets = Some []\<rparr>"
  using assms(2,3)
  by (simp add: process_def Let_def split_beta loops_nothing [OF assms(1)] split: list.splits)

lemma rebin_sum_bad:
  assumes "rt \<le> 0 \<or> rc \<le> 0"
  shows "rebin_sum data rt rc = Inl (if rc = 0 \<or> rt = 0 then ZeroDivisionError else ValueError)"
  using assms by (auto simp: rebin_sum_def Let_def split_beta)

lemma rebin_gauss_cases:
  assumes "rt \<le> 0 \<or> rc \<le> 0"
  shows "(\<exists>e. rebin_gauss frames_rec rt rc chs key acc = Inl e) \<or>
         rebin_gauss frames_rec rt rc chs key acc = Inr acc"
  by (auto simp: rebin_gauss_def bind_err_def rebin_sum_bad [OF assms] split: sum.splits)

lemma rebin_label_kind_cases:
  "(\<exists>e. rebin_label_kind frames_tru rt rc chs key kind acc = Inl e) \<or>
   rebin_label_kind frames_tru rt rc chs key kind acc = Inr acc \<or>
   charges_read frames_tru chs"
  by (auto simp: rebin_label_kind_def bind_err_def charges_read_def split: sum.splits)

lemma dict_get_has: "dict_get d k = Inr v \<Longrightarrow> dict_has d k"
  by (auto simp: dict_get_def dict_has_def split: option.splits dest: map_of_SomeD intro: rev_image_eqI)

lemma rebin_charge_cases:
  assumes "rt \<le> 0 \<or> rc \<le> 0"
  shows "(\<exists>e. rebin_charge frames_tru rt rc chs key acc = Inl e) \<or>
         (rebin_charge frames_tru rt rc chs key acc = Inr acc \<and> \<not> charges_read frames_tru chs)"
  by (auto simp: rebin_charge_def bind_err_def rebin_sum_bad [OF assms] charges_read_def
      dest: dict_get_has split: sum.splits)

lemma process_plane_bad:
  assumes bad: "rt \<le> 0 \<or> rc \<le> 0"
  shows "(\<exists>e. process_plane frames_rec frames_tru rt rc a p acc = Inl e) \<or>
         process_plane frames_rec frames_tru rt rc a p acc = Inr acc"
proof (cases "get_anode_planes (int a) (int p)")
  case None
  then show ?thesis by (simp add: process_plane_def)
next
  case (Some chs)
  let ?key = "''anode'' @ str_nat a @ ''_plane'' @ str_nat p"
  note g = rebin_gauss_cases [OF bad, of frames_rec chs ?key acc]
  note c = rebin_charge_cases [OF bad, of frames_tru chs ?key]
  note k = rebin_label_kind_cases [of frames_tru rt rc chs ?key]
  show ?thesis
  proof (cases "charges_read frames_tru chs")
    case True
    then have "\<exists>e. rebin_charge frames_tru rt rc chs ?key s = Inl e" for s
      using c [of s] by blast
    then show ?thesis
      by (auto simp: process_plane_def Some Let_def bind_err_def split: sum.splits)
  next
    case False
    then have k': "(\<exists>e. rebin_label_kind frames_tru rt rc chs ?key kind s = Inl e) \<or>
       rebin_label_kind frames_tru rt rc chs ?key kind s = Inr s" for kind s
      using k [of kind s] by blast
    have c': "(\<exists>e. rebin_charge frames_tru rt rc chs ?key s = Inl e) \<or>
         rebin_charge frames_tru rt rc chs ?key s = Inr s" for s
      using c [of s] by blast
    show ?thesis
      using g k' [of "''orig_trackid''" acc] k' [of "''orig_pid''" acc]
        k' [of "''current_pid''" acc] c' [of acc]
      by (auto simp: process_plane_def Some Let_def)
  qed
qed

lemma for_each_bad:
  assumes "\<And>x s. (\<exists>e. body x s = Inl e) \<or> body x s = Inr s"
  shows "(\<exists>e. for_each xs body s = Inl e) \<or> for_each xs body s = Inr s"
proof (induction xs)
  case Nil
  show ?case by simp
next
  case (Cons x xs)
  from assms [of x s] Cons show ?case by auto
qed

lemma loops_bad:
  assumes bad: "rt \<le> 0 \<or> rc \<le> 0"
  shows "(\<exists>e. for_each [0..<8] (\<lambda>anode_id.
           for_each [0..<3] (\<lambda>plane_id.
             process_plane frames_rec frames_tru rt rc anode_id plane_id)) acc = Inl e) \<or>
         for_each [0..<8] (\<lambda>anode_id.
           for_each [0..<3] (\<lambda>plane_id.
             process_plane frames_rec frames_tru rt rc anode_id plane_id)) acc = Inr acc"
  by (intro for_each_bad process_plane_bad bad)

lemma verify_loop_Some:
  "verify_loop frames (Some fs) =
     (case find (\<lambda>(name, data). shape data \<noteq> fs) frames of
        None \<Rightarrow> ([], True)
      | Some (name, data) \<Rightarrow> ([Shape_error name (shape data) fs], False))"
  by (induction frames) (auto split: prod.splits)

lemma verify_dimensions_Cons:
  "verify_dimensions ((name, first) # frames) =
     (case find (\<lambda>(name, data). shape data \<noteq> shape first) frames of
        None \<Rightarrow> ([], True)
      | Some (name, data) \<Rightarrow> ([Shape_error name (shape data) (shape first)], False))"
  by (simp add: verify_dimensions_def verify_loop_Some)

lemma dict_set_new: "k \<notin> fst ` set d \<Longrightarrow> dict_set k v d = d @ [(k, v)]"
  by (induction d) auto

lemma dict_merge_distinct:
  "distinct (map fst (a @ b)) \<Longrightarrow> dict_merge a b = a @ b"
proof (induction b arbitrary: a)
  case Nil
  then show ?case by (simp add: dict_merge_def)
next
  case (Cons x b)
  obtain k v where x: "x = (k, v)" by (cases x)
  from Cons.prems have new: "k \<notin> fst ` set a" by (auto simp: x)
  from Cons.prems have d: "distinct (map fst ((a @ [(k, v)]) @ b))" by (auto simp: x)
  have "dict_merge a (x # b) = dict_merge (a @ [(k, v)]) b"
    by (simp add: dict_merge_def x dict_set_new [OF new])
  also have "\<dots> = (a @ [(k, v)]) @ b" by (rule Cons.IH [OF d])
  finally show ?case by (simp add: x)
qed

lemma mismatch_found:
  fixes frames :: "(string \<times> 'a ndarray) list"
  assumes "(n1, f1) \<in> set frames" "(n2, f2) \<in> set frames" "shape f1 \<noteq> shape f2"
  shows "\<exists>name first rest bad data.
     frames = (name, first) # rest \<and>
     find (\<lambda>(name, data). shape data \<noteq> shape first) rest = Some (bad, data) \<and>
     (bad, data) \<in> set rest \<and> shape data \<noteq> shape first"
proof (cases frames)
  case Nil
  with assms show ?thesis by simp
next
  case (Cons x rest)
  obtain name first where x: "x = (name, first)" by (cases x)
  let ?P = "\<lambda>(name :: string, data :: 'a ndarray). shape data \<noteq> shape first"
  have "\<exists>y \<in> set rest. ?P y"
  proof (rule ccontr)
    assume "\<not> ?thesis"
    then have "\<And>n f. (n, f) \<in> set frames \<Longrightarrow> shape f = shape first"
      by (auto simp: Cons x)
    with assms show False by metis
  qed
  then have "find ?P rest \<noteq> None"
    unfolding find_None_iff by blast
  then obtain bad data where f: "find ?P rest = Some (bad, data)"
    by auto
  then have "(bad, data) \<in> set rest \<and> shape data \<noteq> shape first"
    by (auto simp: find_Some_iff in_set_conv_nth)
  with f show ?thesis by (simp add: Cons x)
qed

lemma length_str_nat: "n < 10 \<Longrightarrow> length (str_nat n) = 1"
  by (simp add: str_nat.simps)

lemma keys_dict_set: "fst ` set (dict_set k v d) = insert k (fst ` set d)"
  by (induction k v d rule: dict_set.induct) (simp_all add: insert_commute)

lemma dict_has_get:
  assumes "dict_has d k"
  shows "\<exists>v. dict_get d k = Inr v \<and> (k, v) \<in> set d"
proof -
  from assms have "k \<in> fst ` set d" by (simp add: dict_has_def)
  then have "map_of d k \<noteq> None" by (simp add: map_of_eq_None_iff)
  then obtain v where "map_of d k = Some v" by blast
  then show ?thesis by (auto simp: dict_get_def dest: map_of_SomeD)
qed

lemma take_rows_ok:
  assumes "shape f = (n, m)" "\<forall>c \<in> set chs. 0 \<le> c \<and> c < int n"
  shows "\<exists>r. take_rows f chs = Inr r \<and> shape r = (length chs, m)"
  using assms by (auto simp: take_rows_def Let_def)

lemma plane_channels_range:
  assumes a: "a < 8" and chs: "get_anode_planes (int a) p = Some chs"
  shows "\<forall>c \<in> set chs. 0 \<le> c \<and> c < 12287"
proof -
  define q where "q = int a div 2"
  have d: "0 \<le> q" "q \<le> 3" using a by (auto simp: q_def)
  have "set chs \<subseteq> {3072 * q..<3071 + 3072 * q}"
  proof (cases "int a mod 2 = 0")
    case True
    with chs show ?thesis
      unfolding planes_even [OF True] q_def [symmetric]
      by (auto simp: set_add_scalar_arange split: if_splits)
  next
    case False
    with chs show ?thesis
      unfolding planes_odd [OF False] q_def [symmetric]
      by (auto simp: set_add_scalar_arange split: if_splits)
  qed
  with d show ?thesis by auto
qed

lemma get_slice:
  assumes "dict_has d k" and "\<forall>f \<in> snd ` set d. shape f = (n, m)" and "12287 \<le> n"
    and "\<forall>c \<in> set chs. 0 \<le> c \<and> c < 12287"
  shows "\<exists>f r. dict_get d k = Inr f \<and> take_rows f chs = Inr r \<and> shape r = (length chs, m)"
proof -
  from dict_has_get [OF assms(1)] obtain f where f: "dict_get d k = Inr f" "(k, f) \<in> set d"
    by blast
  then have sh: "shape f = (n, m)" using assms(2) by force
  have "\<forall>c \<in> set chs. 0 \<le> c \<and> c < int n" using assms(3,4) by auto
  from take_rows_ok [OF sh this] f(1) show ?thesis by blast
qed

lemma rebin_gauss_ok:
  fixes frames_rec :: "(string \<times> 'a::{comm_monoid_add,linorder} ndarray) list"
  assumes sh: "\<forall>f \<in> snd ` set frames_rec. shape f = (n, m)" and n: "12287 \<le> n"
    and chs: "\<forall>c \<in> set chs. 0 \<le> c \<and> c < 12287" and t: "0 < t" and c: "0 < c"
  shows "\<exists>acc'. rebin_gauss frames_rec (int t) (int c) chs key acc = Inr acc' \<and>
     fst ` set acc' = fst ` set acc \<union>
       (\<lambda>s. key @ s) ` set (if dict_has frames_rec ''frame_gauss'' then [''_gauss''] else [])"
proof (cases "dict_has frames_rec ''frame_gauss''")
  case False
  then show ?thesis by (simp add: rebin_gauss_def)
next
  case True
  from get_slice [OF True sh n chs] obtain f r where
    "dict_get frames_rec ''frame_gauss'' = Inr f" "take_rows f chs = Inr r" by blast
  then show ?thesis using True rebin_sum_Inr [OF t c, of r]
    by (auto simp: rebin_gauss_def keys_dict_set bind_err_def split: sum.splits)
qed

lemma rebin_charge_ok:
  fixes frames_tru :: "(string \<times> 'a::{comm_monoid_add,linorder} ndarray) list"
  assumes sh: "\<forall>f \<in> snd ` set frames_tru. shape f = (n, m)" and n: "12287 \<le> n"
    and chs: "\<forall>c \<in> set chs. 0 \<le> c \<and> c < 12287" and t: "0 < t" and c: "0 < c"
    and q: "complete_quadruples frames_tru"
  shows "\<exists>acc'. rebin_charge frames_tru (int t) (int c) chs key acc = Inr acc' \<and>
     fst ` set acc' = fst ` set acc \<union>
       (\<lambda>s. key @ s) ` set (if dict_has frames_tru ''charge_1st''
                              then [''_charge_1st'', ''_charge_2nd''] else [])"
proof (cases "dict_has frames_tru ''charge_1st''")
  case False
  then show ?thesis by (simp add: rebin_charge_def)
next
  case True
  then have h2: "dict_has frames_tru ''charge_2nd''" using q by (simp add: complete_quadruples_def)
  from get_slice [OF True sh n chs] obtain f1 r1 where
    1: "dict_get frames_tru ''charge_1st'' = Inr f1" "take_rows f1 chs = Inr r1" by blast
  from get_slice [OF h2 sh n chs] obtain f2 r2 where
    2: "dict_get frames_tru ''charge_2nd'' = Inr f2" "take_rows f2 chs = Inr r2" by blast
  show ?thesis using True 1 2 rebin_sum_Inr [OF t c, of r1] rebin_sum_Inr [OF t c, of r2]
    by (auto simp: rebin_charge_def keys_dict_set bind_err_def split: sum.splits)
qed

lemma rebin_label_kind_ok:
  fixes frames_tru :: "(string \<times> 'a::{comm_monoid_add,linorder} ndarray) list"
  assumes sh: "\<forall>f \<in> snd ` set frames_tru. shape f = (n, m)" and n: "12287 \<le> n"
    and chs: "\<forall>c \<in> set chs. 0 \<le> c \<and> c < 12287" and t: "0 < t" and c: "0 < c"
    and q: "complete_quadruples frames_tru"
    and k: "kind \<in> {''orig_trackid'', ''orig_pid'', ''current_pid''}"
  shows "\<exists>acc'. rebin_label_kind frames_tru (int t) (int c) chs key kind acc = Inr acc' \<and>
     fst ` set acc' = fst ` set acc \<union>
       (\<lambda>s. key @ s) ` set (if dict_has frames_tru (kind @ ''_1st'')
                              then [''_'' @ kind @ ''_1st'', ''_'' @ kind @ ''_2nd''] else [])"
proof (cases "dict_has frames_tru (kind @ ''_1st'')")
  case False
  then show ?thesis by (simp add: rebin_label_kind_def)
next
  case True
  with q k have h: "dict_has frames_tru (kind @ ''_2nd'')" "dict_has frames_tru ''charge_1st''"
    unfolding complete_quadruples_def by blast+
  then have h2: "dict_has frames_tru ''charge_2nd''" using q by (simp add: complete_quadruples_def)
  from get_slice [OF h(2) sh n chs] obtain f1 c1 where
    1: "dict_get frames_tru ''charge_1st'' = Inr f1" "take_rows f1 chs = Inr c1"
      "shape c1 = (length chs, m)" by blast
  from get_slice [OF h2 sh n chs] obtain f2 c2 where
    2: "dict_get frames_tru ''charge_2nd'' = Inr f2" "take_rows f2 chs = Inr c2"
      "shape c2 = (length chs, m)" by blast
  from get_slice [OF True sh n chs] obtain f3 d1 where
    3: "dict_get frames_tru (kind @ ''_1st'') = Inr f3" "take_rows f3 chs = Inr d1"
      "shape d1 = (length chs, m)" by blast
  from get_slice [OF h(1) sh n chs] obtain f4 d2 where
    4: "dict_get frames_tru (kind @ ''_2nd'') = Inr f4" "take_rows f4 chs = Inr d2"
      "shape d2 = (length chs, m)" by blast
  from track_ok [OF 3(3) 4(3) 1(3) 2(3) t c] obtain out where
    o: "rebin_track_first_second d1 d2 c1 c2 (int t) (int c) = Inr out" by blast
  show ?thesis using True
    by (simp add: rebin_label_kind_def 1 2 3 4 o keys_dict_set insert_commute)
qed

lemma process_plane_ok:
  fixes frames_tru :: "(string \<times> 'a::{comm_monoid_add,linorder} ndarray) list"
  assumes shr: "\<forall>f \<in> snd ` set frames_rec. shape f = (n, m)"
    and sht: "\<forall>f \<in> snd ` set frames_tru. shape f = (n, m)" and n: "12287 \<le> n"
    and t: "0 < t" and c: "0 < c"
    and q: "complete_quadruples frames_tru"
    and a: "a < 8" and p: "p < 3"
  shows "\<exists>acc'. process_plane frames_rec frames_tru (int t) (int c) a p acc = Inr acc' \<and>
     fst ` set acc' = fst ` set acc \<union>
       (\<lambda>s. ''anode'' @ str_nat a @ ''_plane'' @ str_nat p @ s) `
         set (aggregated_suffixes frames_rec frames_tru)"
proof -
  define key where "key = ''anode'' @ str_nat a @ ''_plane'' @ str_nat p"
  from planes_lookup [OF p] obtain chs where
    pl: "get_anode_planes (int a) (int p) = Some chs" by blast
  from plane_channels_range [OF a pl] have chs: "\<forall>c \<in> set chs. 0 \<le> c \<and> c < 12287" .
  from rebin_gauss_ok [OF shr n chs t c, of key acc] obtain s1 where
    1: "rebin_gauss frames_rec (int t) (int c) chs key acc = Inr s1"
    "fst ` set s1 = fst ` set acc \<union>
       (\<lambda>s. key @ s) ` set (if dict_has frames_rec ''frame_gauss'' then [''_gauss''] else [])"
    by blast
  from rebin_label_kind_ok [OF sht n chs t c q, of "''orig_trackid''" key s1] obtain s2 where
    2: "rebin_label_kind frames_tru (int t) (int c) chs key ''orig_trackid'' s1 = Inr s2"
    "fst ` set s2 = fst ` set s1 \<union>
       (\<lambda>s. key @ s) ` set (if dict_has frames_tru (''orig_trackid'' @ ''_1st'')
          then [''_'' @ ''orig_trackid'' @ ''_1st'', ''_'' @ ''orig_trackid'' @ ''_2nd''] else [])"
    by blast
  from rebin_label_kind_ok [OF sht n chs t c q, of "''orig_pid''" key s2] obtain s3 where
    3: "rebin_label_kind frames_tru (int t) (int c) chs key ''orig_pid'' s2 = Inr s3"
    "fst ` set s3 = fst ` set s2 \<union>
       (\<lambda>s. key @ s) ` set (if dict_has frames_tru (''orig_pid'' @ ''_1st'')
          then [''_'' @ ''orig_pid'' @ ''_1st'', ''_'' @ ''orig_pid'' @ ''_2nd''] else [])"
    by blast
  from rebin_label_kind_ok [OF sht n chs t c q, of "''current_pid''" key s3] obtain s4 where
    4: "rebin_label_kind frames_tru (int t) (int c) chs key ''current_pid'' s3 = Inr s4"
    "fst ` set s4 = fst ` set s3 \<union>
       (\<lambda>s. key @ s) ` set (if dict_has frames_tru (''current_pid'' @ ''_1st'')
          then [''_'' @ ''current_pid'' @ ''_1st'', ''_'' @ ''current_pid'' @ ''_2nd''] else [])"
    by blast
  from rebin_charge_ok [OF sht n chs t c q, of key s4] obtain s5 where
    5: "rebin_charge frames_tru (int t) (int c) chs key s4 = Inr s5"
    "fst ` set s5 = fst ` set s4 \<union>
       (\<lambda>s. key @ s) ` set (if dict_has frames_tru ''charge_1st''
                              then [''_charge_1st'', ''_charge_2nd''] else [])"
    by blast
  have r: "process_plane frames_rec frames_tru (int t) (int c) a p acc = Inr s5"
    unfolding process_plane_def Let_def key_def [symmetric] pl
    by (simp add: 1(1) 2(1) 3(1) 4(1) 5(1))
  have "fst ` set s5 = fst ` set acc \<union>
       (\<lambda>s. key @ s) ` set (aggregated_suffixes frames_rec frames_tru)"
    unfolding 5(2) 4(2) 3(2) 2(2) 1(2) aggregated_suffixes_def
    by (simp only: set_append set_concat list.map list.set image_Un Un_assoc Union_insert
          Union_empty Un_empty_right append_assoc image_insert image_empty)
  with r show ?thesis by (auto simp: key_def)
qed

lemma set_dict_set: "set (dict_set k v d) \<subseteq> insert (k, v) (set d)"
  by (induction k v d rule: dict_set.induct) auto

lemma set_dict_merge: "set (dict_merge a b) \<subseteq> set a \<union> set b"
proof -
  have "set (fold (\<lambda>(k, v). dict_set k v) b a) \<subseteq> set a \<union> set b"
  proof (induction b arbitrary: a)
    case Nil
    show ?case by simp
  next
    case (Cons x b)
    obtain k v where x: "x = (k, v)" by (cases x)
    from Cons [of "dict_set k v a"] set_dict_set [of k v a]
    show ?case by (auto simp: x)
  qed
  then show ?thesis by (simp add: dict_merge_def)
qed

lemma dict_set_not_Nil [simp]: "dict_set k v d \<noteq> []"
  by (cases d) (auto split: if_splits)

lemma dict_merge_Nil_iff: "dict_merge a b = [] \<longleftrightarrow> a = [] \<and> b = []"
proof (cases b)
  case Nil
  then show ?thesis by (simp add: dict_merge_def)
next
  case (Cons x b')
  obtain k v where x: "x = (k, v)" by (cases x)
  have "fold (\<lambda>(k, v). dict_set k v) b' d \<noteq> []" if "d \<noteq> []" for d
    using that by (induction b' arbitrary: d) (auto split: prod.splits)
  then show ?thesis by (simp add: dict_merge_def Cons x)
qed

lemma verify_same_shape:
  assumes "\<forall>f \<in> snd ` set frames. shape f = (n, m)"
  shows "verify_dimensions frames = ([], True)"
proof (cases frames)
  case Nil
  then show ?thesis by (simp add: verify_dimensions_def)
next
  case (Cons x rest)
  obtain name first where x: "x = (name, first)" by (cases x)
  have "find (\<lambda>(name, data). shape data \<noteq> shape first) rest = None"
    using assms by (force simp: find_None_iff Cons x)
  then show ?thesis by (simp add: Cons x verify_dimensions_Cons)
qed

lemma loops_ok:
  fixes frames_tru :: "(string \<times> 'a::{comm_monoid_add,linorder} ndarray) list"
  assumes shr: "\<forall>f \<in> snd ` set frames_rec. shape f = (n, m)"
    and sht: "\<forall>f \<in> snd ` set frames_tru. shape f = (n, m)" and n: "12287 \<le> n"
    and t: "0 < t" and c: "0 < c"
    and q: "complete_quadruples frames_tru"
  shows "\<exists>acc'. for_each [0..<8] (\<lambda>anode_id.
           for_each [0..<3] (\<lambda>plane_id.
             process_plane frames_rec frames_tru (int t) (int c) anode_id plane_id)) [] = Inr acc' \<and>
     fst ` set acc' = (\<Union>a \<in> {..<8}. \<Union>p \<in> {..<3}.
        (\<lambda>s. ''anode'' @ str_nat a @ ''_plane'' @ str_nat p @ s) `
           set (aggregated_suffixes frames_rec frames_tru))"
proof -
  let ?K = "\<lambda>a p. (\<lambda>s. ''anode'' @ str_nat a @ ''_plane'' @ str_nat p @ s) `
           set (aggregated_suffixes frames_rec frames_tru)"
  let ?inner = "\<lambda>anode_id. for_each [0..<3] (\<lambda>plane_id.
             process_plane frames_rec frames_tru (int t) (int c) anode_id plane_id)"
  have row: "\<exists>s'. ?inner ([0..<8] ! k) s = Inr s' \<and>
        fst ` set s' = (\<Union>a \<in> {..<Suc k}. \<Union>p \<in> {..<3}. ?K a p)"
    if k: "k < length [0..<8]" and inv: "fst ` set s = (\<Union>a \<in> {..<k}. \<Union>p \<in> {..<3}. ?K a p)"
    for k and s :: "(string \<times> 'a ndarray) list"
  proof -
    from k have k8: "k < 8" by simp
    have "\<exists>s'. for_each [0..<3] (\<lambda>plane_id.
             process_plane frames_rec frames_tru (int t) (int c) k plane_id) s = Inr s' \<and>
             fst ` set s' = fst ` set s \<union> (\<Union>p \<in> {..<length [0..<3]}. ?K k p)"
    proof (rule for_each_rule [where I = "\<lambda>l s'. fst ` set s' = fst ` set s \<union> (\<Union>p \<in> {..<l}. ?K k p)"])
      show "fst ` set s = fst ` set s \<union> (\<Union>p \<in> {..<0}. ?K k p)" by simp
    next
      fix l and s0 :: "(string \<times> 'a ndarray) list"
      assume l: "l < length [0..<3]"
        and i0: "fst ` set s0 = fst ` set s \<union> (\<Union>p \<in> {..<l}. ?K k p)"
      then have l3: "l < 3" by simp
      from process_plane_ok [OF shr sht n t c q k8 l3, of s0] obtain acc' where
        "process_plane frames_rec frames_tru (int t) (int c) k l s0 = Inr acc'"
        "fst ` set acc' = fst ` set s0 \<union> ?K k l" by blast
      then show "\<exists>s'. process_plane frames_rec frames_tru (int t) (int c) k ([0..<3] ! l) s0 = Inr s' \<and>
          fst ` set s' = fst ` set s \<union> (\<Union>p \<in> {..<Suc l}. ?K k p)"
        using l3 i0 by (auto simp: lessThan_Suc)
    qed
    then obtain s' where "?inner k s = Inr s'"
      "fst ` set s' = fst ` set s \<union> (\<Union>p \<in> {..<3}. ?K k p)" by auto
    then show ?thesis using k8 inv by (auto simp: lessThan_Suc)
  qed
  have "\<exists>s'. for_each [0..<8] ?inner [] = Inr s' \<and>
          fst ` set s' = (\<Union>a \<in> {..<length [0..<8]}. \<Union>p \<in> {..<3}. ?K a p)"
  proof (rule for_each_rule [where I = "\<lambda>k s. fst ` set s = (\<Union>a \<in> {..<k}. \<Union>p \<in> {..<3}. ?K a p)"])
    show "fst ` set [] = (\<Union>a \<in> {..<0}. \<Union>p \<in> {..<3}. ?K a p)" by simp
  qed (rule row)
  then show ?thesis by simp
qed

lemma output_key_anode: "output_key (''anode'' @ rest) = ''frame_anode'' @ rest"
  by (simp add: output_key_def)

lemma key_suffix_unique:
  assumes l: "length x = length x'" "length y = length y'"
    and e: "''frame_anode'' @ x @ ''_plane'' @ y @ s = ''frame_anode'' @ x' @ ''_plane'' @ y' @ s'"
  shows "s = s'"
proof -
  from e have "x @ (''_plane'' @ y @ s) = x' @ (''_plane'' @ y' @ s')" by simp
  then have "''_plane'' @ y @ s = ''_plane'' @ y' @ s'"
    using l(1) append_eq_append_conv [of x x'] by blast
  then have "y @ s = y' @ s'" by simp
  then show ?thesis using l(2) append_eq_append_conv [of y y'] by blast
qed

lemma suffix_kind_1st:
  assumes "kind \<in> {''orig_trackid'', ''orig_pid'', ''current_pid''}"
  shows "''_'' @ kind @ ''_1st'' \<in> set (aggregated_suffixes frames_rec frames_tru) \<longleftrightarrow>
         dict_has frames_tru (kind @ ''_1st'')"
proof -
  from assms consider "kind = ''orig_trackid''" | "kind = ''orig_pid''" | "kind = ''current_pid''"
    by auto
  then show ?thesis
    by cases (simp_all add: aggregated_suffixes_def)
qed

lemma suffix_kind_2nd:
  assumes "kind \<in> {''orig_trackid'', ''orig_pid'', ''current_pid''}"
  shows "''_'' @ kind @ ''_2nd'' \<in> set (aggregated_suffixes frames_rec frames_tru) \<longleftrightarrow>
         dict_has frames_tru (kind @ ''_1st'')"
proof -
  from assms consider "kind = ''orig_trackid''" | "kind = ''orig_pid''" | "kind = ''current_pid''"
    by auto
  then show ?thesis
    by cases (simp_all add: aggregated_suffixes_def)
qed

lemma dataset_key_iff:
  assumes keys: "fst ` set acc = (\<Union>a \<in> {..<8}. \<Union>p \<in> {..<3}.
        (\<lambda>s. ''anode'' @ str_nat a @ ''_plane'' @ str_nat p @ s) ` set sufs)"
    and a: "a < 8" and p: "p < 3"
  shows "''frame_anode'' @ str_nat a @ ''_plane'' @ str_nat p @ s \<in>
           fst ` set (map (\<lambda>(key, data). (output_key key, data)) acc) \<longleftrightarrow> s \<in> set sufs"
proof -
  have img: "fst ` set (map (\<lambda>(key, data). (output_key key, data)) acc) =
     output_key ` fst ` set acc"
    by (force simp: image_iff)
  have la: "length (str_nat a) = 1" and lp: "length (str_nat p) = 1"
    using a p by (simp_all add: length_str_nat)
  show ?thesis
  proof
    assume "''frame_anode'' @ str_nat a @ ''_plane'' @ str_nat p @ s \<in>
           fst ` set (map (\<lambda>(key, data). (output_key key, data)) acc)"
    then obtain a' p' s' where b: "a' < 8" "p' < 3" "s' \<in> set sufs"
      and e: "''frame_anode'' @ str_nat a @ ''_plane'' @ str_nat p @ s =
              output_key (''anode'' @ str_nat a' @ ''_plane'' @ str_nat p' @ s')"
      unfolding img keys by auto
    have e': "''frame_anode'' @ str_nat a @ ''_plane'' @ str_nat p @ s =
              ''frame_anode'' @ str_nat a' @ ''_plane'' @ str_nat p' @ s'"
      using e unfolding output_key_anode .
    have la': "length (str_nat a') = 1" and lp': "length (str_nat p') = 1"
      using b(1,2) by (simp_all add: length_str_nat)
    have "s = s'"
      by (rule key_suffix_unique [OF _ _ e']) (simp_all add: la lp la' lp')
    with b(3) show "s \<in> set sufs" by simp
  next
    assume "s \<in> set sufs"
    then have "''anode'' @ str_nat a @ ''_plane'' @ str_nat p @ s \<in> fst ` set acc"
      unfolding keys using a p by blast
    then have "output_key (''anode'' @ str_nat a @ ''_plane'' @ str_nat p @ s) \<in>
       output_key ` fst ` set acc" by (rule imageI)
    then show "''frame_anode'' @ str_nat a @ ''_plane'' @ str_nat p @ s \<in>
           fst ` set (map (\<lambda>(key, data). (output_key key, data)) acc)"
      unfolding img output_key_anode .
  qed
qed

lemma process_plane_bad_nothing:
  assumes bad: "rt \<le> 0 \<or> rc \<le> 0" and p: "p < 3"
    and r: "process_plane frames_rec frames_tru rt rc a p acc = Inr acc'"
  shows "nothing_to_rebin frames_rec frames_tru"
proof -
  from planes_lookup [OF p] obtain chs where
    pl: "get_anode_planes (int a) (int p) = Some chs" by blast
  define key where "key = ''anode'' @ str_nat a @ ''_plane'' @ str_nat p"
  have sum_bad: "rebin_sum d rt rc = Inl (if rc = 0 \<or> rt = 0 then ZeroDivisionError else ValueError)"
    for d :: "'a ndarray"
    by (rule rebin_sum_bad [OF bad])
  from r have r': "bind_err (rebin_gauss frames_rec rt rc chs key acc) (\<lambda>s1.
      bind_err (rebin_label_kind frames_tru rt rc chs key ''orig_trackid'' s1) (\<lambda>s2.
      bind_err (rebin_label_kind frames_tru rt rc chs key ''orig_pid'' s2) (\<lambda>s3.
      bind_err (rebin_label_kind frames_tru rt rc chs key ''current_pid'' s3) (\<lambda>s4.
      rebin_charge frames_tru rt rc chs key s4)))) = Inr acc'"
    unfolding process_plane_def Let_def key_def [symmetric] pl by simp
  then obtain s1 s2 s3 s4 where
    1: "rebin_gauss frames_rec rt rc chs key acc = Inr s1"
    and 2: "rebin_label_kind frames_tru rt rc chs key ''orig_trackid'' s1 = Inr s2"
    and 3: "rebin_label_kind frames_tru rt rc chs key ''orig_pid'' s2 = Inr s3"
    and 4: "rebin_label_kind frames_tru rt rc chs key ''current_pid'' s3 = Inr s4"
    and 5: "rebin_charge frames_tru rt rc chs key s4 = Inr acc'"
    by (auto simp: bind_err_def split: sum.splits)
  from 5 have c: "\<not> dict_has frames_tru ''charge_1st''"
    by (auto simp: rebin_charge_def bind_err_def sum_bad split: sum.splits if_splits)
  have g: "\<not> dict_has frames_rec ''frame_gauss''"
    using 1 by (auto simp: rebin_gauss_def bind_err_def sum_bad split: sum.splits if_splits)
  have k: "\<not> dict_has frames_tru (kind @ ''_1st'')"
    if "rebin_label_kind frames_tru rt rc chs key kind s = Inr s'" for kind s s'
    using that c
    by (auto simp: rebin_label_kind_def bind_err_def split: sum.splits if_splits
        dest: dict_get_has)
  from k [OF 2] k [OF 3] k [OF 4] c g show ?thesis
    by (simp add: nothing_to_rebin_def)
qed

text \<open>
  Claim C10. With both input collections empty, \<open>verify_dimensions\<close> returns True on the
  empty dictionary, and \<open>process\<close> then raises \<open>IndexError\<close> where it reads the shape of
  the first frame, before the anode loop, whatever the factors. So whenever \<open>process\<close>
  completes, one of the two collections holds a frame.
\<close>

theorem process_empty_input_index_error:
  fixes frames_rec :: "(string \<times> 'a::{comm_monoid_add,linorder} ndarray) list"
  shows "verify_dimensions ([] :: (string \<times> 'a ndarray) list) = ([], True) \<and>
   process rebin_time rebin_channel [] ([] :: (string \<times> 'a::{comm_monoid_add,linorder} ndarray) list) =
     Inl IndexError \<and>
   (\<forall>run. process rebin_time rebin_channel frames_rec frames_tru = Inr run \<longrightarrow>
      frames_rec \<noteq> [] \<or> frames_tru \<noteq> [])"
proof -
  have e: "process rebin_time rebin_channel [] ([] :: (string \<times> 'a ndarray) list) = Inl IndexError"
    by (simp add: process_def dict_merge_def verify_dimensions_def)
  then have "\<forall>run. process rebin_time rebin_channel frames_rec frames_tru = Inr run \<longrightarrow>
      frames_rec \<noteq> [] \<or> frames_tru \<noteq> []"
    by (cases "frames_rec = [] \<and> frames_tru = []") auto
  with e show ?thesis by (simp add: verify_dimensions_def)
qed

text \<open>
  The theorem at a collection holding one frame, where \<open>process\<close> completes, next to the
  empty input, where it raises.
\<close>

theorem process_empty_input_index_error_witness:
  "process 2 2 [(''gauss'', \<lparr>shape = (1, 1), rows = [[0::int]]\<rparr>)] [] =
     Inr \<lparr>printed = [Loaded_rec [''gauss''], Loaded_tru []], returned = True,
          datasets = Some []\<rparr> \<and>
   [(''gauss'', \<lparr>shape = (1, 1), rows = [[0::int]]\<rparr>)] \<noteq> [] \<and>
   process 2 2 [] ([] :: (string \<times> int ndarray) list) = Inl IndexError"
proof -
  have r: "process 2 2 [(''gauss'', \<lparr>shape = (1, 1), rows = [[0::int]]\<rparr>)] [] =
     Inr \<lparr>printed = [Loaded_rec [''gauss''], Loaded_tru []], returned = True,
          datasets = Some []\<rparr>"
    by (simp add: process_nothing nothing_to_rebin_def dict_has_def dict_merge_def
        verify_dimensions_def)
  from process_empty_input_index_error [of 2 2 "[(''gauss'', \<lparr>shape = (1, 1), rows = [[0::int]]\<rparr>)]" "[]"] r
  show ?thesis by simp
qed

text \<open>
  Claim C6, as stated, fails when a frame of the first collection and a frame of the
  second carry the same name: \<^verbatim>\<open>{**frames_rec, **frames_tru}\<close> keeps the second one only, the
  shape check sees a single frame, and \<open>process\<close> returns True although the two frames
  disagree in shape.
\<close>

theorem process_same_name_shape_mismatch_counterexample:
  "shape \<lparr>shape = (1, 1), rows = [[0::int]]\<rparr> \<noteq>
     shape \<lparr>shape = (2, 2), rows = [[0, 0], [0, 0::int]]\<rparr> \<and>
   process 2 2 [(''gauss'', \<lparr>shape = (1, 1), rows = [[0::int]]\<rparr>)]
               [(''gauss'', \<lparr>shape = (2, 2), rows = [[0, 0], [0, 0]]\<rparr>)] =
     Inr \<lparr>printed = [Loaded_rec [''gauss''], Loaded_tru [''gauss'']], returned = True,
          datasets = Some []\<rparr>"
  by (simp add: process_nothing nothing_to_rebin_def dict_has_def dict_merge_def
      verify_dimensions_def)

text \<open>
  Claim C6, amended. If the frame names of the two input collections are pairwise
  distinct and two of the frames disagree in shape, then \<open>process\<close> prints an error line
  naming an offending frame with its shape and the expected shape (the shape of the first
  frame), prints the dimension-mismatch line, and returns False without opening the
  output file: no aggregation is performed. No exception is raised.
\<close>

theorem process_shape_mismatch_returns_false:
  fixes frames_rec :: "(string \<times> 'a::{comm_monoid_add,linorder} ndarray) list"
  assumes d: "distinct (map fst (frames_rec @ frames_tru))"
    and m: "(n1, f1) \<in> set frames_rec \<union> set frames_tru"
      "(n2, f2) \<in> set frames_rec \<union> set frames_tru" "shape f1 \<noteq> shape f2"
  shows "\<exists>name data first.
     (name, data) \<in> set frames_rec \<union> set frames_tru \<and>
     first = snd (hd (frames_rec @ frames_tru)) \<and>
     shape data \<noteq> shape first \<and>
     process rt rc frames_rec frames_tru =
       Inr \<lparr>printed = [Loaded_rec (map fst frames_rec), Loaded_tru (map fst frames_tru),
                       Shape_error name (shape data) (shape first), Dimension_mismatch],
            returned = False, datasets = None\<rparr>"
proof -
  have mg: "dict_merge frames_rec frames_tru = frames_rec @ frames_tru"
    using d by (rule dict_merge_distinct)
  from mismatch_found [of n1 f1 "frames_rec @ frames_tru" n2 f2] m
  obtain name first rest bad data where
    fr: "frames_rec @ frames_tru = (name, first) # rest"
    and f: "find (\<lambda>(name, data). shape data \<noteq> shape first) rest = Some (bad, data)"
    and b: "(bad, data) \<in> set rest" "shape data \<noteq> shape first"
    by auto
  have "process rt rc frames_rec frames_tru =
       Inr \<lparr>printed = [Loaded_rec (map fst frames_rec), Loaded_tru (map fst frames_tru),
                       Shape_error bad (shape data) (shape first), Dimension_mismatch],
            returned = False, datasets = None\<rparr>"
    by (simp add: process_def Let_def mg fr verify_dimensions_Cons f)
  moreover have "(bad, data) \<in> set frames_rec \<union> set frames_tru"
    using b(1) fr by (metis list.set_intros(2) set_append)
  moreover have "first = snd (hd (frames_rec @ frames_tru))" by (simp add: fr)
  ultimately show ?thesis using b(2) by blast
qed

text \<open>
  The theorem at a 1 by 1 frame \<^verbatim>\<open>gauss\<close> and a 2 by 2 frame \<^verbatim>\<open>charge_1st\<close>: the error
  line names \<^verbatim>\<open>charge_1st\<close>, its shape \<open>(2, 2)\<close> and the expected shape \<open>(1, 1)\<close>.
\<close>

theorem process_shape_mismatch_returns_false_witness:
  "distinct (map fst ([(''gauss'', \<lparr>shape = (1, 1), rows = [[0::int]]\<rparr>)] @
                      [(''charge_1st'', \<lparr>shape = (2, 2), rows = [[0, 0], [0, 0]]\<rparr>)])) \<and>
   shape \<lparr>shape = (1, 1), rows = [[0::int]]\<rparr> \<noteq>
     shape \<lparr>shape = (2, 2), rows = [[0, 0], [0, 0::int]]\<rparr> \<and>
   process 2 2 [(''gauss'', \<lparr>shape = (1, 1), rows = [[0::int]]\<rparr>)]
               [(''charge_1st'', \<lparr>shape = (2, 2), rows = [[0, 0], [0, 0]]\<rparr>)] =
     Inr \<lparr>printed = [Loaded_rec [''gauss''], Loaded_tru [''charge_1st''],
                     Shape_error ''charge_1st'' (2, 2) (1, 1), Dimension_mismatch],
          returned = False, datasets = None\<rparr>"
proof -
  let ?a = "\<lparr>shape = (1, 1), rows = [[0::int]]\<rparr>"
  let ?b = "\<lparr>shape = (2, 2), rows = [[0, 0], [0, 0::int]]\<rparr>"
  let ?rec = "[(''gauss'', ?a)]" and ?tru = "[(''charge_1st'', ?b)]"
  have d: "distinct (map fst (?rec @ ?tru))" by simp
  have m1: "(''gauss'', ?a) \<in> set ?rec \<union> set ?tru"
    and m2: "(''charge_1st'', ?b) \<in> set ?rec \<union> set ?tru" by simp_all
  have ne: "shape ?a \<noteq> shape ?b" by simp
  from process_shape_mismatch_returns_false [OF d m1 m2 ne, of 2 2] obtain name data where
    nd: "(name, data) \<in> set ?rec \<union> set ?tru" "shape data \<noteq> shape (snd (hd (?rec @ ?tru)))"
    and r: "process 2 2 ?rec ?tru =
       Inr \<lparr>printed = [Loaded_rec (map fst ?rec), Loaded_tru (map fst ?tru),
                       Shape_error name (shape data) (shape (snd (hd (?rec @ ?tru)))),
                       Dimension_mismatch],
            returned = False, datasets = None\<rparr>"
    by blast
  from nd have "name = ''charge_1st''" "data = ?b" by auto
  with r d ne show ?thesis by simp
qed

lemma loops_first_plane_raises:
  assumes "process_plane frames_rec frames_tru rt rc 0 0 [] = Inl e"
  shows "for_each [0..<8] (\<lambda>anode_id.
           for_each [0..<3] (\<lambda>plane_id.
             process_plane frames_rec frames_tru rt rc anode_id plane_id)) [] = Inl e"
proof -
  have "[0..<8] = 0 # [1..<8]" "[0..<3] = 0 # [1..<3]" by (simp_all add: upt_conv_Cons)
  then show ?thesis using assms by simp
qed

lemma process_first_plane_raises:
  assumes ok: "snd (verify_dimensions (dict_merge frames_rec frames_tru))"
    and ne: "dict_merge frames_rec frames_tru \<noteq> []"
    and e: "process_plane frames_rec frames_tru rt rc 0 0 [] = Inl e"
  shows "process rt rc frames_rec frames_tru = Inl e"
  using ok ne
  by (simp add: process_def Let_def split_beta loops_first_plane_raises [OF e]
      split: list.splits)

lemma process_mismatch:
  assumes "\<not> snd (verify_dimensions (dict_merge frames_rec frames_tru))"
  shows "process rt rc frames_rec frames_tru =
     Inr \<lparr>printed = [Loaded_rec (map fst frames_rec), Loaded_tru (map fst frames_tru)] @
                     fst (verify_dimensions (dict_merge frames_rec frames_tru)) @
                     [Dimension_mismatch],
          returned = False, datasets = None\<rparr>"
  using assms by (simp add: process_def Let_def split_beta)

lemma process_empty_merge:
  assumes "dict_merge frames_rec frames_tru = []"
  shows "process rt rc frames_rec frames_tru = Inl IndexError"
  using assms by (simp add: process_def Let_def verify_dimensions_def)

lemma gauss_first_plane:
  fixes frame :: "'a::{comm_monoid_add,linorder} ndarray"
  assumes bad: "rt \<le> 0 \<or> rc \<le> 0" and sh: "shape frame = (n, m)" and n: "12287 \<le> n"
  shows "process_plane [(''frame_gauss'', frame)] frames_tru rt rc 0 0 [] =
           Inl (if rc = 0 \<or> rt = 0 then ZeroDivisionError else ValueError)"
proof -
  define chs where "chs = add_scalar (arange 0 476) (3072 * (int 0 div 2))"
  define key where "key = ''anode'' @ str_nat 0 @ ''_plane'' @ str_nat 0"
  have pl: "get_anode_planes (int 0) (int 0) = Some chs"
    by (simp add: planes_even chs_def)
  from plane_channels_range [OF _ pl] have "\<forall>c \<in> set chs. 0 \<le> c \<and> c < 12287" by simp
  with n have "\<forall>c \<in> set chs. 0 \<le> c \<and> c < int n" by auto
  from take_rows_ok [OF sh this] obtain r where r: "take_rows frame chs = Inr r" by blast
  have g: "rebin_gauss [(''frame_gauss'', frame)] rt rc chs key [] =
        Inl (if rc = 0 \<or> rt = 0 then ZeroDivisionError else ValueError)"
    by (simp add: rebin_gauss_def dict_has_def dict_get_def r rebin_sum_bad [OF bad])
  show ?thesis
    unfolding process_plane_def Let_def key_def [symmetric] pl
    by (simp add: g)
qed

text \<open>
  Claim C7, as stated, fails: with both factors 0 and an input that holds none of the
  frames \<open>process\<close> aggregates, the run is not rejected. It completes and returns True.
\<close>

theorem process_nonpositive_factor_counterexample:
  "process 0 0 [(''gauss'', \<lparr>shape = (1, 1), rows = [[0::int]]\<rparr>)] [] =
     Inr \<lparr>printed = [Loaded_rec [''gauss''], Loaded_tru []], returned = True,
          datasets = Some []\<rparr>"
  by (simp add: process_nothing nothing_to_rebin_def dict_has_def dict_merge_def
      verify_dimensions_def)

text \<open>
  Claim C7, amended. Whenever \<open>rebin_time \<le> 0\<close> or \<open>rebin_channel \<le> 0\<close>, no rebinned output
  is produced with the non-positive factor, but \<open>process\<close> does not check the factors and
  there is no rejection before the anode loop. \<open>rebin_sum\<close> raises \<open>ZeroDivisionError\<close> for
  a zero factor and \<open>ValueError\<close> for a negative one. \<open>process\<close> behaves as follows:
  \<^item> when the shape check of the merged collection fails, it prints the error lines and
    returns False, writing nothing;
  \<^item> when the merged collection is empty, it raises \<open>IndexError\<close>;
  \<^item> when the shape check passes on a non-empty collection that holds none of the
    frames the loop body aggregates (\<open>nothing_to_rebin\<close>), it returns True with an empty
    output;
  \<^item> in every other case the loop body for anode 0, plane 0 raises an exception, and
    that exception ends the run.

  Hence a run that completes has written no dataset.
\<close>

theorem process_nonpositive_factor_no_output:
  fixes frames_rec :: "(string \<times> 'a::{comm_monoid_add,linorder} ndarray) list"
    and data :: "'a ndarray"
  assumes bad: "rebin_time \<le> 0 \<or> rebin_channel \<le> 0"
  shows "rebin_sum data rebin_time rebin_channel =
           Inl (if rebin_channel = 0 \<or> rebin_time = 0 then ZeroDivisionError else ValueError) \<and>
         (\<not> snd (verify_dimensions (dict_merge frames_rec frames_tru)) \<longrightarrow>
            process rebin_time rebin_channel frames_rec frames_tru =
              Inr \<lparr>printed = [Loaded_rec (map fst frames_rec), Loaded_tru (map fst frames_tru)] @
                              fst (verify_dimensions (dict_merge frames_rec frames_tru)) @
                              [Dimension_mismatch],
                   returned = False, datasets = None\<rparr>) \<and>
         (dict_merge frames_rec frames_tru = [] \<longrightarrow>
            process rebin_time rebin_channel frames_rec frames_tru = Inl IndexError) \<and>
         (snd (verify_dimensions (dict_merge frames_rec frames_tru)) \<and>
          dict_merge frames_rec frames_tru \<noteq> [] \<and> nothing_to_rebin frames_rec frames_tru \<longrightarrow>
            process rebin_time rebin_channel frames_rec frames_tru =
              Inr \<lparr>printed = [Loaded_rec (map fst frames_rec), Loaded_tru (map fst frames_tru)],
                   returned = True, datasets = Some []\<rparr>) \<and>
         (snd (verify_dimensions (dict_merge frames_rec frames_tru)) \<and>
          dict_merge frames_rec frames_tru \<noteq> [] \<and> \<not> nothing_to_rebin frames_rec frames_tru \<longrightarrow>
            (\<exists>e. process_plane frames_rec frames_tru rebin_time rebin_channel 0 0 [] = Inl e \<and>
                 process rebin_time rebin_channel frames_rec frames_tru = Inl e)) \<and>
         (\<forall>run. process rebin_time rebin_channel frames_rec frames_tru = Inr run \<longrightarrow>
            (\<not> returned run \<and> datasets run = None) \<or>
            (returned run \<and> datasets run = Some [] \<and> nothing_to_rebin frames_rec frames_tru))"
proof -
  let ?ok = "snd (verify_dimensions (dict_merge frames_rec frames_tru))"
  let ?ne = "dict_merge frames_rec frames_tru \<noteq> []"
  let ?p = "process rebin_time rebin_channel frames_rec frames_tru"
  have 1: "rebin_sum data rebin_time rebin_channel =
           Inl (if rebin_channel = 0 \<or> rebin_time = 0 then ZeroDivisionError else ValueError)"
    by (rule rebin_sum_bad [OF bad])
  have 2: "?p = Inr \<lparr>printed = [Loaded_rec (map fst frames_rec), Loaded_tru (map fst frames_tru)] @
                              fst (verify_dimensions (dict_merge frames_rec frames_tru)) @
                              [Dimension_mismatch],
                   returned = False, datasets = None\<rparr>" if "\<not> ?ok"
    using that by (rule process_mismatch)
  have 3: "?p = Inl IndexError" if "dict_merge frames_rec frames_tru = []"
    using that by (rule process_empty_merge)
  have 4: "?p = Inr \<lparr>printed = [Loaded_rec (map fst frames_rec), Loaded_tru (map fst frames_tru)],
                   returned = True, datasets = Some []\<rparr>"
    if "?ok" "?ne" "nothing_to_rebin frames_rec frames_tru"
    using that by (intro process_nothing)
  have 5: "\<exists>e. process_plane frames_rec frames_tru rebin_time rebin_channel 0 0 [] = Inl e \<and> ?p = Inl e"
    if ok: "?ok" and ne: "?ne" and some: "\<not> nothing_to_rebin frames_rec frames_tru"
  proof -
    from process_plane_bad [OF bad, of frames_rec frames_tru 0 0 "[]"]
    show ?thesis
    proof
      assume "\<exists>e. process_plane frames_rec frames_tru rebin_time rebin_channel 0 0 [] = Inl e"
      then obtain e where e: "process_plane frames_rec frames_tru rebin_time rebin_channel 0 0 [] = Inl e"
        by blast
      with process_first_plane_raises [OF ok ne e] show ?thesis by blast
    next
      assume "process_plane frames_rec frames_tru rebin_time rebin_channel 0 0 [] = Inr []"
      from process_plane_bad_nothing [OF bad _ this] some show ?thesis by simp
    qed
  qed
  have 6: "(\<not> returned run \<and> datasets run = None) \<or>
            (returned run \<and> datasets run = Some [] \<and> nothing_to_rebin frames_rec frames_tru)"
    if r: "?p = Inr run" for run
  proof (cases ?ok)
    case False
    from 2 [OF False] r show ?thesis by auto
  next
    case True
    have ne: ?ne using 3 r by auto
    show ?thesis
    proof (cases "nothing_to_rebin frames_rec frames_tru")
      case True
      from 4 [OF \<open>?ok\<close> ne True] r show ?thesis using True by auto
    next
      case False
      from 5 [OF \<open>?ok\<close> ne False] r show ?thesis by auto
    qed
  qed
  from 1 2 3 4 5 6 show ?thesis by blast
qed

text \<open>
  The theorem at each of its cases: a \<^verbatim>\<open>frame_gauss\<close> frame of 12288 channels with
  \<open>rebin_channel = 0\<close> (the first plane raises \<open>ZeroDivisionError\<close>) and with
  \<open>rebin_time = -1\<close> (\<open>ValueError\<close>); a collection with nothing to aggregate (the run
  returns True); two frames of different shapes (the run returns False); the empty
  collection (\<open>IndexError\<close>).
\<close>

theorem process_nonpositive_factor_no_output_witness:
  "((2::int) \<le> 0 \<or> (0::int) \<le> 0) \<and>
   process 2 0 [(''frame_gauss'', \<lparr>shape = (12288, 2), rows = replicate 12288 [0, 0::int]\<rparr>)] [] =
     Inl ZeroDivisionError \<and>
   process (- 1) 2
     [(''frame_gauss'', \<lparr>shape = (12288, 2), rows = replicate 12288 [0, 0::int]\<rparr>)] [] =
     Inl ValueError \<and>
   \<not> nothing_to_rebin
       [(''frame_gauss'', \<lparr>shape = (12288, 2), rows = replicate 12288 [0, 0::int]\<rparr>)]
       ([] :: (string \<times> int ndarray) list) \<and>
   process 0 0 [(''gauss'', \<lparr>shape = (1, 1), rows = [[0::int]]\<rparr>)] [] =
     Inr \<lparr>printed = [Loaded_rec [''gauss''], Loaded_tru []], returned = True,
          datasets = Some []\<rparr> \<and>
   nothing_to_rebin [(''gauss'', \<lparr>shape = (1, 1), rows = [[0::int]]\<rparr>)]
     ([] :: (string \<times> int ndarray) list) \<and>
   process 0 0 [(''gauss'', \<lparr>shape = (1, 1), rows = [[0::int]]\<rparr>)]
               [(''charge_1st'', \<lparr>shape = (2, 2), rows = [[0, 0], [0, 0]]\<rparr>)] =
     Inr \<lparr>printed = [Loaded_rec [''gauss''], Loaded_tru [''charge_1st''],
                     Shape_error ''charge_1st'' (2, 2) (1, 1), Dimension_mismatch],
          returned = False, datasets = None\<rparr> \<and>
   process 0 0 [] ([] :: (string \<times> int ndarray) list) = Inl IndexError \<and>
   rebin_sum \<lparr>shape = (1, 1), rows = [[0::int]]\<rparr> 0 0 = Inl ZeroDivisionError \<and>
   rebin_sum \<lparr>shape = (1, 1), rows = [[0::int]]\<rparr> (- 1) 2 = Inl ValueError"
proof -
  let ?A = "\<lparr>shape = (12288, 2), rows = replicate 12288 [0, 0::int]\<rparr>"
  let ?g = "[(''frame_gauss'', ?A)]"
  let ?s = "[(''gauss'', \<lparr>shape = (1, 1), rows = [[0::int]]\<rparr>)]"
  let ?c = "[(''charge_1st'', \<lparr>shape = (2, 2), rows = [[0, 0], [0, 0::int]]\<rparr>)]"
  let ?e = "[] :: (string \<times> int ndarray) list"
  let ?d = "\<lparr>shape = (1, 1), rows = [[0::int]]\<rparr>"
  have b0: "(2::int) \<le> 0 \<or> (0::int) \<le> 0" and b1: "(- 1::int) \<le> 0 \<or> (2::int) \<le> 0"
    and b2: "(0::int) \<le> 0 \<or> (0::int) \<le> 0" by simp_all
  have okg: "snd (verify_dimensions (dict_merge ?g ?e))" and neg: "dict_merge ?g ?e \<noteq> []"
    by (simp_all add: dict_merge_def verify_dimensions_def)
  have some: "\<not> nothing_to_rebin ?g ?e" by (simp add: nothing_to_rebin_def dict_has_def)
  have shA: "shape ?A = (12288, 2)" and n: "(12287::nat) \<le> 12288" by simp_all
  have p0: "process_plane ?g ?e 2 0 0 0 [] = Inl ZeroDivisionError"
    using gauss_first_plane [OF b0 shA n, of ?e] by simp
  have p1: "process_plane ?g ?e (- 1) 2 0 0 [] = Inl ValueError"
    using gauss_first_plane [OF b1 shA n, of ?e] by simp
  have r0: "process 2 0 ?g ?e = Inl ZeroDivisionError"
    using process_nonpositive_factor_no_output [OF b0, of ?d ?g ?e] okg neg some p0 by auto
  have r1: "process (- 1) 2 ?g ?e = Inl ValueError"
    using process_nonpositive_factor_no_output [OF b1, of ?d ?g ?e] okg neg some p1 by auto
  have oks: "snd (verify_dimensions (dict_merge ?s ?e))" and nes: "dict_merge ?s ?e \<noteq> []"
    by (simp_all add: dict_merge_def verify_dimensions_def)
  have none: "nothing_to_rebin ?s ?e" by (simp add: nothing_to_rebin_def dict_has_def)
  have r2: "process 0 0 ?s ?e =
     Inr \<lparr>printed = [Loaded_rec [''gauss''], Loaded_tru []], returned = True,
          datasets = Some []\<rparr>"
    using process_nonpositive_factor_no_output [OF b2, of ?d ?s ?e] oks nes none by simp
  have bad_shape: "\<not> snd (verify_dimensions (dict_merge ?s ?c))"
    and errs: "fst (verify_dimensions (dict_merge ?s ?c)) = [Shape_error ''charge_1st'' (2, 2) (1, 1)]"
    by (simp_all add: dict_merge_def verify_dimensions_def)
  have r3: "process 0 0 ?s ?c =
     Inr \<lparr>printed = [Loaded_rec [''gauss''], Loaded_tru [''charge_1st''],
                     Shape_error ''charge_1st'' (2, 2) (1, 1), Dimension_mismatch],
          returned = False, datasets = None\<rparr>"
    using process_nonpositive_factor_no_output [OF b2, of ?d ?s ?c] bad_shape errs by simp
  have em: "dict_merge ?e ?e = []" by (simp add: dict_merge_def)
  have r4: "process 0 0 ?e ?e = Inl IndexError"
    using process_nonpositive_factor_no_output [OF b2, of ?d ?e ?e] em by simp
  have s0: "rebin_sum ?d 0 0 = Inl ZeroDivisionError"
    using process_nonpositive_factor_no_output [OF b2, of ?d ?e ?e] by simp
  have s1: "rebin_sum ?d (- 1) 2 = Inl ValueError"
    using process_nonpositive_factor_no_output [OF b1, of ?d ?e ?e] by simp
  from b0 r0 r1 some r2 none r3 r4 s0 s1 show ?thesis by blast
qed

text \<open>
  Claim C8, as stated, fails: with the frame \<^verbatim>\<open>orig_trackid_1st\<close> present and the frame
  \<^verbatim>\<open>charge_1st\<close> missing, the guard of the label kind passes and the read of
  \<^verbatim>\<open>frames_tru['charge_1st']\<close> raises \<open>KeyError\<close>, which ends the run.
\<close>

theorem process_missing_charge_counterexample:
  "process 2 2 [] [(''orig_trackid_1st'', \<lparr>shape = (1, 1), rows = [[0::int]]\<rparr>)] = Inl KeyError"
proof -
  have "[0..<8] = 0 # [1..<8]" "[0..<3] = 0 # [1..<3]" by (simp_all add: upt_conv_Cons)
  moreover have "process_plane [] [(''orig_trackid_1st'', \<lparr>shape = (1, 1), rows = [[0::int]]\<rparr>)]
      2 2 0 0 [] = Inl KeyError"
    by (simp add: process_plane_def planes_even Let_def rebin_gauss_def rebin_label_kind_def
        dict_has_def dict_get_def)
  ultimately show ?thesis
    by (simp add: process_def dict_merge_def verify_dimensions_def Let_def)
qed

text \<open>
  Claim C8, amended. Let the input collection be non-empty, all its frames have one shape
  with at least 12287 channels, and the factors be positive. Let every label kind whose
  \<^verbatim>\<open>{kind}_1st\<close> frame is present come with its full quadruple (\<^verbatim>\<open>{kind}_1st\<close>,
  \<^verbatim>\<open>{kind}_2nd\<close>, \<^verbatim>\<open>charge_1st\<close>, \<^verbatim>\<open>charge_2nd\<close>), and let the frame \<^verbatim>\<open>charge_1st\<close>,
  whenever it is present, come with \<^verbatim>\<open>charge_2nd\<close> (\<open>complete_quadruples\<close>). Then \<open>process\<close>
  completes and returns True; a label kind whose \<^verbatim>\<open>{kind}_1st\<close> frame is absent is skipped
  without failing, and for every anode and plane the two datasets of a label kind are
  written exactly when its \<^verbatim>\<open>{kind}_1st\<close> frame is present. The run prints the names of
  the frames found in each collection; it has no list of expected kinds.
\<close>

theorem process_skips_absent_label_kinds:
  fixes frames_tru :: "(string \<times> 'a::{comm_monoid_add,linorder} ndarray) list"
  assumes sh: "\<forall>f \<in> snd ` (set frames_rec \<union> set frames_tru). shape f = (n, m)"
    and n: "12287 \<le> n" and ne: "frames_rec @ frames_tru \<noteq> []"
    and t: "0 < t" and c: "0 < c"
    and q: "complete_quadruples frames_tru"
  shows "\<exists>ds. process (int t) (int c) frames_rec frames_tru =
       Inr \<lparr>printed = [Loaded_rec (map fst frames_rec), Loaded_tru (map fst frames_tru)],
            returned = True, datasets = Some ds\<rparr> \<and>
     (\<forall>a < 8. \<forall>p < 3. \<forall>kind \<in> {''orig_trackid'', ''orig_pid'', ''current_pid''}.
        (''frame_anode'' @ str_nat a @ ''_plane'' @ str_nat p @ ''_'' @ kind @ ''_1st''
           \<in> fst ` set ds \<longleftrightarrow> dict_has frames_tru (kind @ ''_1st'')) \<and>
        (''frame_anode'' @ str_nat a @ ''_plane'' @ str_nat p @ ''_'' @ kind @ ''_2nd''
           \<in> fst ` set ds \<longleftrightarrow> dict_has frames_tru (kind @ ''_1st'')))"
proof -
  have shr: "\<forall>f \<in> snd ` set frames_rec. shape f = (n, m)"
    and sht: "\<forall>f \<in> snd ` set frames_tru. shape f = (n, m)"
    using sh by auto
  have "\<forall>f \<in> snd ` set (dict_merge frames_rec frames_tru). shape f = (n, m)"
    using sh set_dict_merge [of frames_rec frames_tru] by (auto simp: image_iff)
  then have v: "verify_dimensions (dict_merge frames_rec frames_tru) = ([], True)"
    by (rule verify_same_shape)
  from ne have "dict_merge frames_rec frames_tru \<noteq> []" by (simp add: dict_merge_Nil_iff)
  then obtain first rest where mg: "dict_merge frames_rec frames_tru = first # rest"
    by (cases "dict_merge frames_rec frames_tru") auto
  from loops_ok [OF shr sht n t c q] obtain acc where
    l: "for_each [0..<8] (\<lambda>anode_id.
           for_each [0..<3] (\<lambda>plane_id.
             process_plane frames_rec frames_tru (int t) (int c) anode_id plane_id)) [] = Inr acc"
    and keys: "fst ` set acc = (\<Union>a \<in> {..<8}. \<Union>p \<in> {..<3}.
        (\<lambda>s. ''anode'' @ str_nat a @ ''_plane'' @ str_nat p @ s) `
           set (aggregated_suffixes frames_rec frames_tru))"
    by blast
  let ?ds = "map (\<lambda>(key, data). (output_key key, data)) acc"
  have r: "process (int t) (int c) frames_rec frames_tru =
       Inr \<lparr>printed = [Loaded_rec (map fst frames_rec), Loaded_tru (map fst frames_tru)],
            returned = True, datasets = Some ?ds\<rparr>"
    using v l by (simp add: process_def Let_def mg)
  have "(''frame_anode'' @ str_nat a @ ''_plane'' @ str_nat p @ ''_'' @ kind @ ''_1st''
           \<in> fst ` set ?ds \<longleftrightarrow> dict_has frames_tru (kind @ ''_1st'')) \<and>
        (''frame_anode'' @ str_nat a @ ''_plane'' @ str_nat p @ ''_'' @ kind @ ''_2nd''
           \<in> fst ` set ?ds \<longleftrightarrow> dict_has frames_tru (kind @ ''_1st''))"
    if "a < 8" "p < 3" "kind \<in> {''orig_trackid'', ''orig_pid'', ''current_pid''}" for a p kind
    using dataset_key_iff [OF keys that(1,2), of "''_'' @ kind @ ''_1st''"]
      dataset_key_iff [OF keys that(1,2), of "''_'' @ kind @ ''_2nd''"]
      suffix_kind_1st [OF that(3), of frames_rec frames_tru]
      suffix_kind_2nd [OF that(3), of frames_rec frames_tru]
    by simp
  with r show ?thesis by blast
qed

text \<open>
  The theorem at frames of 12288 channels and 2 ticks, with the kind \<^verbatim>\<open>orig_pid\<close> complete
  and the kinds \<^verbatim>\<open>orig_trackid\<close> and \<^verbatim>\<open>current_pid\<close> absent.
\<close>

theorem process_skips_absent_label_kinds_witness:
  "complete_quadruples
     [(''charge_1st'', \<lparr>shape = (12288, 2), rows = replicate 12288 [0, 0::int]\<rparr>),
      (''charge_2nd'', \<lparr>shape = (12288, 2), rows = replicate 12288 [0, 0]\<rparr>),
      (''orig_pid_1st'', \<lparr>shape = (12288, 2), rows = replicate 12288 [0, 0]\<rparr>),
      (''orig_pid_2nd'', \<lparr>shape = (12288, 2), rows = replicate 12288 [0, 0]\<rparr>)] \<and>
   (\<exists>ds. process 2 2
       [(''gauss'', \<lparr>shape = (12288, 2), rows = replicate 12288 [0, 0::int]\<rparr>)]
       [(''charge_1st'', \<lparr>shape = (12288, 2), rows = replicate 12288 [0, 0::int]\<rparr>),
        (''charge_2nd'', \<lparr>shape = (12288, 2), rows = replicate 12288 [0, 0]\<rparr>),
        (''orig_pid_1st'', \<lparr>shape = (12288, 2), rows = replicate 12288 [0, 0]\<rparr>),
        (''orig_pid_2nd'', \<lparr>shape = (12288, 2), rows = replicate 12288 [0, 0]\<rparr>)] =
      Inr \<lparr>printed = [Loaded_rec [''gauss''],
               Loaded_tru [''charge_1st'', ''charge_2nd'', ''orig_pid_1st'', ''orig_pid_2nd'']],
           returned = True, datasets = Some ds\<rparr> \<and>
      ''frame_anode7_plane2_orig_pid_1st'' \<in> fst ` set ds \<and>
      ''frame_anode7_plane2_orig_pid_2nd'' \<in> fst ` set ds \<and>
      ''frame_anode7_plane2_orig_trackid_1st'' \<notin> fst ` set ds \<and>
      ''frame_anode7_plane2_current_pid_1st'' \<notin> fst ` set ds)"
proof -
  let ?A = "\<lparr>shape = (12288, 2), rows = replicate 12288 [0, 0::int]\<rparr>"
  let ?rec = "[(''gauss'', ?A)]"
  let ?tru = "[(''charge_1st'', ?A), (''charge_2nd'', ?A), (''orig_pid_1st'', ?A),
               (''orig_pid_2nd'', ?A)]"
  have sh: "\<forall>f \<in> snd ` (set ?rec \<union> set ?tru). shape f = (12288, 2)" by simp
  have n: "(12287::nat) \<le> 12288" by simp
  have ne: "?rec @ ?tru \<noteq> []" by simp
  have p: "(0::nat) < 2" by simp
  have h1: "dict_has ?tru (''orig_pid'' @ ''_1st'')" by (simp add: dict_has_def)
  have h2: "\<not> dict_has ?tru (''orig_trackid'' @ ''_1st'')" by (simp add: dict_has_def)
  have h3: "\<not> dict_has ?tru (''current_pid'' @ ''_1st'')" by (simp add: dict_has_def)
  have q: "complete_quadruples ?tru"
    using h2 h3 by (simp add: complete_quadruples_def) (simp add: dict_has_def)
  have s7: "str_nat 7 = ''7''" and s2: "str_nat 2 = ''2''" by (simp_all add: str_nat.simps)
  from process_skips_absent_label_kinds [OF sh n ne p p q] obtain ds where
    r: "process (int 2) (int 2) ?rec ?tru =
       Inr \<lparr>printed = [Loaded_rec (map fst ?rec), Loaded_tru (map fst ?tru)],
            returned = True, datasets = Some ds\<rparr>"
    and k: "\<forall>a < 8. \<forall>p < 3. \<forall>kind \<in> {''orig_trackid'', ''orig_pid'', ''current_pid''}.
        (''frame_anode'' @ str_nat a @ ''_plane'' @ str_nat p @ ''_'' @ kind @ ''_1st''
           \<in> fst ` set ds \<longleftrightarrow> dict_has ?tru (kind @ ''_1st'')) \<and>
        (''frame_anode'' @ str_nat a @ ''_plane'' @ str_nat p @ ''_'' @ kind @ ''_2nd''
           \<in> fst ` set ds \<longleftrightarrow> dict_has ?tru (kind @ ''_1st''))"
    by blast
  have a7: "(7::nat) < 8" and p2: "(2::nat) < 3" by simp_all
  have k1: "''orig_pid'' \<in> {''orig_trackid'', ''orig_pid'', ''current_pid''}"
    and k2: "''orig_trackid'' \<in> {''orig_trackid'', ''orig_pid'', ''current_pid''}"
    and k3: "''current_pid'' \<in> {''orig_trackid'', ''orig_pid'', ''current_pid''}"
    by simp_all
  from k [rule_format, OF a7 p2 k1] h1
  have m1: "''frame_anode7_plane2_orig_pid_1st'' \<in> fst ` set ds"
    "''frame_anode7_plane2_orig_pid_2nd'' \<in> fst ` set ds"
    by (simp_all add: s7 s2)
  from k [rule_format, OF a7 p2 k2] h2
  have m2: "''frame_anode7_plane2_orig_trackid_1st'' \<notin> fst ` set ds"
    by (simp add: s7 s2)
  from k [rule_format, OF a7 p2 k3] h3
  have m3: "''frame_anode7_plane2_current_pid_1st'' \<notin> fst ` set ds"
    by (simp add: s7 s2)
  from r have "process 2 2 ?rec ?tru =
      Inr \<lparr>printed = [Loaded_rec [''gauss''],
               Loaded_tru [''charge_1st'', ''charge_2nd'', ''orig_pid_1st'', ''orig_pid_2nd'']],
           returned = True, datasets = Some ds\<rparr>"
    by simp
  with q m1 m2 m3 show ?thesis by blast
qed

end
